theory Spec2Isabelle
  imports Complex_Main "HOL-Library.Char_ord" "HOL-Library.List_Lexorder" "HOL-Library.Product_Lexorder"
begin

section \<open>Python values as the decoder delivers them\<close>

text \<open>
  The ingestion script reads a gzipped JSON file with \<^verbatim>\<open>ijson.items(f, "positions.item")\<close>.
  A decoded value is \<^verbatim>\<open>None\<close>, a \<^verbatim>\<open>bool\<close>, an \<^verbatim>\<open>int\<close> (integral JSON number), a
  \<^verbatim>\<open>Decimal\<close> (any other JSON number: the script's \<^verbatim>\<open>decimal_default\<close> exists because of
  them), a \<^verbatim>\<open>str\<close>, a \<^verbatim>\<open>list\<close> or a \<^verbatim>\<open>dict\<close> with string keys. The script itself creates one
  \<^verbatim>\<open>float\<close>, the literal \<^verbatim>\<open>0.0\<close>, and tests \<^verbatim>\<open>isinstance(x, (int, float))\<close>, so floats are
  values of the model too. A float is its exact rational value or one of the three
  non-finite values; a \<^verbatim>\<open>Decimal\<close> is its exact rational value (JSON has no literal for a
  non-finite number). A dict is an association list that lists each key once.
\<close>

datatype pyfloat = Finite rat | PosInf | NegInf | NaN

datatype pyval =
    PNone
  | PBool bool
  | PInt int
  | PFloat pyfloat
  | PDecimal rat
  | PStr string
  | PList "pyval list"
  | PDict "(string \<times> pyval) list"

datatype py_error =
    AttributeError
  | TypeError
  | KeyError
  | ValueError
  | OverflowError
  | DecodeError
  | ConversionError
  | ConstraintError
  | CatalogError

text \<open>
  Library behaviour that the scripts call but do not define is a parameter of the model:
  Python's \<^verbatim>\<open>int(s)\<close> and \<^verbatim>\<open>float(s)\<close> on a string (\<open>None\<close>: \<^verbatim>\<open>ValueError\<close>), \<^verbatim>\<open>float(n)\<close>
  on an int (\<open>None\<close>: \<^verbatim>\<open>OverflowError\<close>), \<^verbatim>\<open>float(d)\<close> on a Decimal, \<^verbatim>\<open>str(x)\<close> on a value
  that is not a string, and the database's casts of an integer and of a decimal number to
  a \<^verbatim>\<open>DOUBLE\<close> column (\<open>None\<close>: out of range).
\<close>

record externals =
  int_of_str :: "string \<Rightarrow> int option"
  float_of_str :: "string \<Rightarrow> pyfloat option"
  float_of_int :: "int \<Rightarrow> pyfloat option"
  float_of_decimal :: "rat \<Rightarrow> pyfloat"
  str_of :: "pyval \<Rightarrow> string"
  double_of_int :: "int \<Rightarrow> pyfloat option"
  double_of_decimal :: "rat \<Rightarrow> pyfloat option"

text \<open>An exception aborts the rest of a statement sequence.\<close>

fun ebind :: "'e + 'a \<Rightarrow> ('a \<Rightarrow> 'e + 'b) \<Rightarrow> 'e + 'b" where
  "ebind (Inl e) f = Inl e"
| "ebind (Inr x) f = f x"

fun foldE :: "('s \<Rightarrow> 'a \<Rightarrow> 'e + 's) \<Rightarrow> 'a list \<Rightarrow> 's \<Rightarrow> 'e + 's" where
  "foldE f [] s = Inr s"
| "foldE f (x # xs) s = ebind (f s x) (foldE f xs)"

definition dict_get :: "(string \<times> pyval) list \<Rightarrow> string \<Rightarrow> pyval \<Rightarrow> pyval" where
  "dict_get kvs k d = (case map_of kvs k of None \<Rightarrow> d | Some v \<Rightarrow> v)"

text \<open>\<^verbatim>\<open>x.get(k, d)\<close>: only a dict has the method.\<close>

fun py_get :: "pyval \<Rightarrow> string \<Rightarrow> pyval \<Rightarrow> py_error + pyval" where
  "py_get (PDict kvs) k d = Inr (dict_get kvs k d)"
| "py_get _ k d = Inl AttributeError"

text \<open>\<^verbatim>\<open>len(x)\<close>.\<close>

fun py_len :: "pyval \<Rightarrow> py_error + nat" where
  "py_len (PStr s) = Inr (length s)"
| "py_len (PList xs) = Inr (length xs)"
| "py_len (PDict kvs) = Inr (length kvs)"
| "py_len _ = Inl TypeError"

text \<open>
  \<^verbatim>\<open>x[i]\<close> for a literal index \<open>i\<close> below \<^verbatim>\<open>len(x)\<close>: an element of a list, a one-character
  string of a string; a dict with string keys has no key \<open>i\<close>.
\<close>

fun py_index :: "pyval \<Rightarrow> nat \<Rightarrow> py_error + pyval" where
  "py_index (PList xs) i = (if i < length xs then Inr (xs ! i) else Inl KeyError)"
| "py_index (PStr s) i = (if i < length s then Inr (PStr [s ! i]) else Inl KeyError)"
| "py_index (PDict kvs) i = Inl KeyError"
| "py_index _ i = Inl TypeError"

text \<open>Iteration (\<^verbatim>\<open>for x in v\<close>, \<^verbatim>\<open>set.update(v)\<close>): a dict yields its keys.\<close>

fun py_iter :: "pyval \<Rightarrow> py_error + pyval list" where
  "py_iter (PList xs) = Inr xs"
| "py_iter (PStr s) = Inr (map (\<lambda>c. PStr [c]) s)"
| "py_iter (PDict kvs) = Inr (map (\<lambda>kv. PStr (fst kv)) kvs)"
| "py_iter _ = Inl TypeError"

text \<open>Truth value of a value in \<^verbatim>\<open>if x:\<close>.\<close>

fun py_truthy :: "pyval \<Rightarrow> bool" where
  "py_truthy PNone = False"
| "py_truthy (PBool b) = b"
| "py_truthy (PInt n) = (n \<noteq> 0)"
| "py_truthy (PFloat f) = (f \<noteq> Finite 0)"
| "py_truthy (PDecimal q) = (q \<noteq> 0)"
| "py_truthy (PStr s) = (s \<noteq> [])"
| "py_truthy (PList xs) = (xs \<noteq> [])"
| "py_truthy (PDict kvs) = (kvs \<noteq> [])"

text \<open>
  Set membership compares by \<^verbatim>\<open>==\<close> on hashable values: numbers of any numeric type are
  equal when their values are, so they share one key; lists and dicts are unhashable.
\<close>

datatype pykey = KNone | KNum rat | KPosInf | KNegInf | KNaN | KStr string

fun py_key :: "pyval \<Rightarrow> pykey option" where
  "py_key PNone = Some KNone"
| "py_key (PBool b) = Some (KNum (if b then 1 else 0))"
| "py_key (PInt n) = Some (KNum (of_int n))"
| "py_key (PFloat (Finite q)) = Some (KNum q)"
| "py_key (PFloat PosInf) = Some KPosInf"
| "py_key (PFloat NegInf) = Some KNegInf"
| "py_key (PFloat NaN) = Some KNaN"
| "py_key (PDecimal q) = Some (KNum q)"
| "py_key (PStr s) = Some (KStr s)"
| "py_key (PList xs) = None"
| "py_key (PDict kvs) = None"

text \<open>
  A Python \<^verbatim>\<open>set\<close> is the list of its elements, each the first value inserted with its key;
  \<^verbatim>\<open>list(s)\<close> returns them in an order Python does not specify, here the insertion order.
\<close>

definition set_add :: "pyval list \<Rightarrow> pyval \<Rightarrow> py_error + pyval list" where
  "set_add s x =
     (case py_key x of
        None \<Rightarrow> Inl TypeError
      | Some k \<Rightarrow> if Some k \<in> set (map py_key s) then Inr s else Inr (s @ [x]))"

definition set_update :: "pyval list \<Rightarrow> pyval \<Rightarrow> py_error + pyval list" where
  "set_update s v = ebind (py_iter v) (\<lambda>xs. foldE set_add xs s)"

definition str_set_add :: "string list \<Rightarrow> string \<Rightarrow> string list" where
  "str_set_add s x = (if x \<in> set s then s else s @ [x])"

definition py_str :: "externals \<Rightarrow> pyval \<Rightarrow> string" where
  "py_str B v = (case v of PStr s \<Rightarrow> s | _ \<Rightarrow> str_of B v)"

text \<open>Truncation toward zero, as \<^verbatim>\<open>int()\<close> does on a float or a Decimal.\<close>

definition trunc :: "rat \<Rightarrow> int" where
  "trunc q = (if 0 \<le> q then \<lfloor>q\<rfloor> else \<lceil>q\<rceil>)"

fun py_int :: "externals \<Rightarrow> pyval \<Rightarrow> py_error + int" where
  "py_int B PNone = Inl TypeError"
| "py_int B (PBool b) = Inr (if b then 1 else 0)"
| "py_int B (PInt n) = Inr n"
| "py_int B (PFloat (Finite q)) = Inr (trunc q)"
| "py_int B (PFloat PosInf) = Inl OverflowError"
| "py_int B (PFloat NegInf) = Inl OverflowError"
| "py_int B (PFloat NaN) = Inl ValueError"
| "py_int B (PDecimal q) = Inr (trunc q)"
| "py_int B (PStr s) = (case int_of_str B s of None \<Rightarrow> Inl ValueError | Some n \<Rightarrow> Inr n)"
| "py_int B (PList xs) = Inl TypeError"
| "py_int B (PDict kvs) = Inl TypeError"

fun py_float :: "externals \<Rightarrow> pyval \<Rightarrow> py_error + pyfloat" where
  "py_float B PNone = Inl TypeError"
| "py_float B (PBool b) = Inr (Finite (if b then 1 else 0))"
| "py_float B (PInt n) = (case float_of_int B n of None \<Rightarrow> Inl OverflowError | Some f \<Rightarrow> Inr f)"
| "py_float B (PFloat f) = Inr f"
| "py_float B (PDecimal q) = Inr (float_of_decimal B q)"
| "py_float B (PStr s) = (case float_of_str B s of None \<Rightarrow> Inl ValueError | Some f \<Rightarrow> Inr f)"
| "py_float B (PList xs) = Inl TypeError"
| "py_float B (PDict kvs) = Inl TypeError"

text \<open>\<^verbatim>\<open>int(x) if x is not None else None\<close> and its \<^verbatim>\<open>float\<close> twin.\<close>

definition opt_int :: "externals \<Rightarrow> pyval \<Rightarrow> py_error + int option" where
  "opt_int B x = (if x = PNone then Inr None else ebind (py_int B x) (\<lambda>n. Inr (Some n)))"

definition opt_float :: "externals \<Rightarrow> pyval \<Rightarrow> py_error + pyfloat option" where
  "opt_float B x = (if x = PNone then Inr None else ebind (py_float B x) (\<lambda>f. Inr (Some f)))"

section \<open>The variant normaliser: \<^verbatim>\<open>build_variant_record\<close>\<close>

text \<open>The dict that \<^verbatim>\<open>build_variant_record\<close> returns, one field per key.\<close>

record variant_record =
  chromosome :: pyval
  vid :: pyval
  variant_index :: nat
  position :: "int option"
  quality :: "pyfloat option"
  begin_pos :: "int option"
  end_pos :: "int option"
  ref_allele :: pyval
  alt_allele :: pyval
  genotype :: pyval
  genotype_quality :: "pyfloat option"
  total_depth :: "int option"
  allele_depths :: "int list"
  paternal_genotype :: pyval
  maternal_genotype :: pyval
  variant_type :: pyval
  gene_symbols :: "string list"
  canonical_transcripts :: "pyval list"
  transcript_consequences :: "pyval list"
  gnomad_af :: pyval
  clinvar_classifications :: "pyval list"
  raw :: pyval

text \<open>\<^verbatim>\<open>samples[i] if len(samples) > i else {}\<close>.\<close>

definition sample_at :: "pyval \<Rightarrow> nat \<Rightarrow> py_error + pyval" where
  "sample_at samples i =
     ebind (py_len samples) (\<lambda>n. if n > i then py_index samples i else Inr (PDict []))"

text \<open>
  \<^verbatim>\<open>if isinstance(g, str): g = g.replace("|", "/").replace(".", "0")\<close>, written three times in
  the source (proband, paternal, maternal). Both patterns are one character long, so each
  \<^verbatim>\<open>replace\<close> maps over the characters.
\<close>

definition replace_char :: "char \<Rightarrow> char \<Rightarrow> string \<Rightarrow> string" where
  "replace_char a b s = map (\<lambda>c. if c = a then b else c) s"

definition normalize_genotype :: "pyval \<Rightarrow> pyval" where
  "normalize_genotype g =
     (case g of
        PStr s \<Rightarrow> PStr (replace_char (CHR ''.'') (CHR ''0'') (replace_char (CHR ''|'') (CHR ''/'') s))
      | _ \<Rightarrow> g)"

text \<open>\<^verbatim>\<open>if not isinstance(allele_depths, list): allele_depths = []\<close>.\<close>

definition as_list :: "pyval \<Rightarrow> pyval list" where
  "as_list v = (case v of PList xs \<Rightarrow> xs | _ \<Rightarrow> [])"

text \<open>\<^verbatim>\<open>isinstance(x, (int, float))\<close>: \<^verbatim>\<open>bool\<close> is a subclass of \<^verbatim>\<open>int\<close>, \<^verbatim>\<open>Decimal\<close> is neither.\<close>

fun is_int_or_float :: "pyval \<Rightarrow> bool" where
  "is_int_or_float (PBool b) = True"
| "is_int_or_float (PInt n) = True"
| "is_int_or_float (PFloat f) = True"
| "is_int_or_float _ = False"

text \<open>\<^verbatim>\<open>[int(x) for x in allele_depths if isinstance(x, (int, float))]\<close>.\<close>

fun depth_ints :: "externals \<Rightarrow> pyval list \<Rightarrow> py_error + int list" where
  "depth_ints B [] = Inr []"
| "depth_ints B (x # xs) =
     (if is_int_or_float x
      then ebind (py_int B x) (\<lambda>n. ebind (depth_ints B xs) (\<lambda>ns. Inr (n # ns)))
      else depth_ints B xs)"

text \<open>
  The body of \<^verbatim>\<open>for transcript in transcripts\<close>, on the three sets \<^verbatim>\<open>gene_names\<close>,
  \<^verbatim>\<open>canonical_txs\<close> and \<^verbatim>\<open>consequences\<close>.
\<close>

definition transcript_step ::
  "externals \<Rightarrow> string list \<times> pyval list \<times> pyval list \<Rightarrow> pyval
     \<Rightarrow> py_error + (string list \<times> pyval list \<times> pyval list)" where
  "transcript_step B st transcript =
     (case st of (gene_names, canonical_txs, consequences) \<Rightarrow>
        ebind (py_get transcript ''hgnc'' PNone) (\<lambda>gs.
        let gene_names' = (if py_truthy gs then str_set_add gene_names (py_str B gs) else gene_names) in
        ebind (py_get transcript ''isCanonical'' PNone) (\<lambda>is_canonical.
        ebind (if py_truthy is_canonical
               then ebind (py_get transcript ''transcript'' PNone) (set_add canonical_txs)
               else Inr canonical_txs) (\<lambda>canonical_txs'.
        ebind (py_get transcript ''consequence'' (PList [])) (\<lambda>cs.
        ebind (set_update consequences cs) (\<lambda>consequences'.
        Inr (gene_names', canonical_txs', consequences')))))))"

definition collect_transcripts ::
  "externals \<Rightarrow> pyval \<Rightarrow> py_error + (string list \<times> pyval list \<times> pyval list)" where
  "collect_transcripts B transcripts =
     ebind (py_iter transcripts) (\<lambda>ts. foldE (transcript_step B) ts ([], [], []))"

text \<open>The body of \<^verbatim>\<open>for clinvar_entry in variant.get("clinvar-preview", [])\<close>.\<close>

definition clinvar_step :: "pyval list \<Rightarrow> pyval \<Rightarrow> py_error + pyval list" where
  "clinvar_step classifications clinvar_entry =
     ebind (py_get clinvar_entry ''classifications'' (PDict [])) (\<lambda>c.
     ebind (py_get c ''germlineClassification'' (PDict [])) (\<lambda>g.
     ebind (py_get g ''classification'' PNone) (\<lambda>entry_classification.
     if py_truthy entry_classification
     then set_add classifications entry_classification
     else Inr classifications)))"

definition collect_clinvar :: "pyval \<Rightarrow> py_error + pyval list" where
  "collect_clinvar entries = ebind (py_iter entries) (\<lambda>es. foldE clinvar_step es [])"

text \<open>
  \<^verbatim>\<open>gnomad_af = variant.get("gnomad", {}).get("allAf")\<close>, then \<^verbatim>\<open>0.0\<close> in place of \<^verbatim>\<open>None\<close>.
\<close>

definition gnomad_lookup :: "(string \<times> pyval) list \<Rightarrow> py_error + pyval" where
  "gnomad_lookup variant = py_get (dict_get variant ''gnomad'' (PDict [])) ''allAf'' PNone"

definition gnomad_default :: "pyval \<Rightarrow> pyval" where
  "gnomad_default af = (if af = PNone then PFloat (Finite 0) else af)"

text \<open>
  \<^verbatim>\<open>build_variant_record(variant, variant_index, position)\<close>, statement by statement. The
  first statement calls \<^verbatim>\<open>position.get\<close> and the second \<^verbatim>\<open>variant.get\<close>, so either argument
  that is not a dict raises \<^verbatim>\<open>AttributeError\<close>. The coercions sit in the returned dict
  literal and run last, in the order of its keys. Locals that share a name with a key of
  the result carry a digit. \<open>raw\<close> holds the variant payload itself:
  its JSON text (\<^verbatim>\<open>json.dumps\<close>) is not modelled.
\<close>

fun build_variant_record ::
  "externals \<Rightarrow> pyval \<Rightarrow> nat \<Rightarrow> pyval \<Rightarrow> py_error + variant_record" where
  "build_variant_record B (PDict variant) idx (PDict pos) =
     (let chromosome0 = dict_get pos ''chromosome'' PNone;
          vid0 = dict_get variant ''vid'' PNone;
          vid_position = dict_get pos ''position'' PNone;
          quality0 = dict_get pos ''quality'' PNone;
          begin0 = dict_get variant ''begin'' PNone;
          end0 = dict_get variant ''end'' PNone;
          ref_allele0 = dict_get variant ''refAllele'' PNone;
          alt_allele0 = dict_get variant ''altAllele'' PNone;
          samples = dict_get pos ''samples'' (PList [])
      in
      ebind (sample_at samples 0) (\<lambda>proband.
      ebind (sample_at samples 1) (\<lambda>paternal.
      ebind (sample_at samples 2) (\<lambda>maternal.
      ebind (py_get proband ''genotype'' PNone) (\<lambda>genotype0.
      ebind (py_get proband ''genotypeQuality'' PNone) (\<lambda>genotype_quality0.
      ebind (py_get proband ''totalDepth'' PNone) (\<lambda>total_depth0.
      ebind (py_get proband ''alleleDepths'' (PList [])) (\<lambda>allele_depths0.
      ebind (py_get paternal ''genotype'' PNone) (\<lambda>paternal_genotype0.
      ebind (py_get maternal ''genotype'' PNone) (\<lambda>maternal_genotype0.
      ebind (collect_transcripts B (dict_get variant ''transcripts'' (PList []))) (\<lambda>sets.
      ebind (gnomad_lookup variant) (\<lambda>gnomad_af0.
      ebind (collect_clinvar (dict_get variant ''clinvar-preview'' (PList []))) (\<lambda>classifications.
      ebind (opt_int B vid_position) (\<lambda>position1.
      ebind (opt_float B quality0) (\<lambda>quality1.
      ebind (opt_int B begin0) (\<lambda>begin1.
      ebind (opt_int B end0) (\<lambda>end1.
      ebind (opt_float B genotype_quality0) (\<lambda>genotype_quality1.
      ebind (opt_int B total_depth0) (\<lambda>total_depth1.
      ebind (depth_ints B (as_list allele_depths0)) (\<lambda>allele_depths1.
      Inr \<lparr> chromosome = chromosome0,
            vid = vid0,
            variant_index = idx,
            position = position1,
            quality = quality1,
            begin_pos = begin1,
            end_pos = end1,
            ref_allele = ref_allele0,
            alt_allele = alt_allele0,
            genotype = normalize_genotype genotype0,
            genotype_quality = genotype_quality1,
            total_depth = total_depth1,
            allele_depths = allele_depths1,
            paternal_genotype = normalize_genotype paternal_genotype0,
            maternal_genotype = normalize_genotype maternal_genotype0,
            variant_type = dict_get variant ''variantType'' PNone,
            gene_symbols = fst sets,
            canonical_transcripts = fst (snd sets),
            transcript_consequences = snd (snd sets),
            gnomad_af = gnomad_default gnomad_af0,
            clinvar_classifications = classifications,
            raw = PDict variant \<rparr>))))))))))))))))))))"
| "build_variant_record B _ idx _ = Inl AttributeError"

subsection \<open>Inputs of the expected shape\<close>

text \<open>
  The input format: a position is an object with an optional \<open>samples\<close> array of objects;
  a variant is an object with optional \<open>transcripts\<close> and \<open>clinvar-preview\<close> arrays of
  objects and an optional \<open>gnomad\<close> object. Every nested field may be missing. The
  predicates below say so on the decoded values, and ask of the scalar fields that Python's
  \<^verbatim>\<open>int\<close> or \<^verbatim>\<open>float\<close> accepts them.
\<close>

fun is_dict :: "pyval \<Rightarrow> bool" where
  "is_dict (PDict kvs) = True"
| "is_dict _ = False"

definition field :: "pyval \<Rightarrow> string \<Rightarrow> pyval \<Rightarrow> pyval" where
  "field v k d = (case v of PDict kvs \<Rightarrow> dict_get kvs k d | _ \<Rightarrow> d)"

definition hashable :: "pyval \<Rightarrow> bool" where
  "hashable v = (py_key v \<noteq> None)"

definition items_ok :: "(pyval \<Rightarrow> bool) \<Rightarrow> pyval \<Rightarrow> bool" where
  "items_ok P v = (case py_iter v of Inl e \<Rightarrow> False | Inr xs \<Rightarrow> list_all P xs)"

definition sample_or_empty :: "pyval \<Rightarrow> nat \<Rightarrow> pyval" where
  "sample_or_empty samples i =
     (case samples of PList xs \<Rightarrow> if i < length xs then xs ! i else PDict [] | _ \<Rightarrow> PDict [])"

definition samples_ok :: "pyval \<Rightarrow> bool" where
  "samples_ok samples = (case samples of PList xs \<Rightarrow> list_all is_dict (take 3 xs) | _ \<Rightarrow> False)"

definition transcript_ok :: "pyval \<Rightarrow> bool" where
  "transcript_ok t =
     (is_dict t \<and>
      (py_truthy (field t ''isCanonical'' PNone) \<longrightarrow> hashable (field t ''transcript'' PNone)) \<and>
      items_ok hashable (field t ''consequence'' (PList [])))"

definition clinvar_ok :: "pyval \<Rightarrow> bool" where
  "clinvar_ok e =
     (let c = field e ''classifications'' (PDict []);
          g = field c ''germlineClassification'' (PDict []);
          cl = field g ''classification'' PNone
      in is_dict e \<and> is_dict c \<and> is_dict g \<and> (py_truthy cl \<longrightarrow> hashable cl))"

definition succeeds :: "py_error + 'a \<Rightarrow> bool" where
  "succeeds r = (case r of Inl e \<Rightarrow> False | Inr x \<Rightarrow> True)"

definition int_ok :: "externals \<Rightarrow> pyval \<Rightarrow> bool" where
  "int_ok B x = (x = PNone \<or> succeeds (py_int B x))"

definition float_ok :: "externals \<Rightarrow> pyval \<Rightarrow> bool" where
  "float_ok B x = (x = PNone \<or> succeeds (py_float B x))"

fun finite_entry :: "pyval \<Rightarrow> bool" where
  "finite_entry (PFloat PosInf) = False"
| "finite_entry (PFloat NegInf) = False"
| "finite_entry (PFloat NaN) = False"
| "finite_entry _ = True"

definition well_formed ::
  "externals \<Rightarrow> (string \<times> pyval) list \<Rightarrow> (string \<times> pyval) list \<Rightarrow> bool" where
  "well_formed B variant pos =
     (let samples = dict_get pos ''samples'' (PList []);
          proband = sample_or_empty samples 0
      in samples_ok samples \<and>
         items_ok transcript_ok (dict_get variant ''transcripts'' (PList [])) \<and>
         is_dict (dict_get variant ''gnomad'' (PDict [])) \<and>
         items_ok clinvar_ok (dict_get variant ''clinvar-preview'' (PList [])) \<and>
         int_ok B (dict_get pos ''position'' PNone) \<and>
         float_ok B (dict_get pos ''quality'' PNone) \<and>
         int_ok B (dict_get variant ''begin'' PNone) \<and>
         int_ok B (dict_get variant ''end'' PNone) \<and>
         float_ok B (field proband ''genotypeQuality'' PNone) \<and>
         int_ok B (field proband ''totalDepth'' PNone) \<and>
         list_all finite_entry (as_list (field proband ''alleleDepths'' (PList []))))"

text \<open>
  What the allele-depth comprehension keeps of one entry: an \<^verbatim>\<open>int\<close> as it is, a \<^verbatim>\<open>bool\<close> as 0
  or 1, a finite \<^verbatim>\<open>float\<close> truncated; nothing of any other entry, a \<^verbatim>\<open>Decimal\<close> included.
\<close>

fun int_entry :: "pyval \<Rightarrow> int option" where
  "int_entry (PBool b) = Some (if b then 1 else 0)"
| "int_entry (PInt n) = Some n"
| "int_entry (PFloat (Finite q)) = Some (trunc q)"
| "int_entry _ = None"

section \<open>The store: schema, constraints and transactions\<close>

text \<open>
  One row of the table \<^verbatim>\<open>variants\<close> as \<^verbatim>\<open>create_variant_table\<close> declares it: a \<^verbatim>\<open>NOT NULL\<close>
  column holds a value, any other column an optional one; an array column is an optional
  list of optional elements. \<^verbatim>\<open>DOUBLE\<close> values are \<open>pyfloat\<close>s. The \<^verbatim>\<open>raw\<close> column holds the
  payload whose JSON text the script stores.
\<close>

record variant_row =
  vid :: string
  chromosome :: string
  variant_index :: int
  position :: int
  quality :: pyfloat
  begin_pos :: int
  end_pos :: int
  ref_allele :: string
  alt_allele :: string
  genotype :: "string option"
  genotype_quality :: "pyfloat option"
  total_depth :: "int option"
  allele_depths :: "int list option"
  maternal_genotype :: "string option"
  paternal_genotype :: "string option"
  variant_type :: "string option"
  gene_symbols :: "string option list option"
  canonical_transcripts :: "string option list option"
  transcript_consequences :: "string option list option"
  gnomad_af :: "pyfloat option"
  clinvar_classifications :: "string option list option"
  raw :: pyval

text \<open>A row \<^verbatim>\<open>(vid, chromosome, value)\<close> of one of the three derived tables.\<close>

type_synonym membership_row = "string \<times> string \<times> string option"

text \<open>The database file: each table exists (\<open>Some\<close> of its rows, in insertion order) or not.\<close>

record database =
  variants :: "variant_row list option"
  variant_genes :: "membership_row list option"
  variant_consequences :: "membership_row list option"
  clinvar_classifications :: "membership_row list option"

text \<open>
  A connection: the committed database and, while a transaction is open, the database as
  the transaction sees it. A statement works on the transaction's copy when there is one
  and on the committed database otherwise (autocommit).
\<close>

record connection =
  committed :: database
  txn :: "database option"

definition connect :: "database \<Rightarrow> connection" where
  "connect db = \<lparr> committed = db, txn = None \<rparr>"

definition current :: "connection \<Rightarrow> database" where
  "current conn = (case txn conn of None \<Rightarrow> committed conn | Some w \<Rightarrow> w)"

definition set_current :: "connection \<Rightarrow> database \<Rightarrow> connection" where
  "set_current conn db =
     (case txn conn of None \<Rightarrow> conn \<lparr> committed := db \<rparr> | Some w \<Rightarrow> conn \<lparr> txn := Some db \<rparr>)"

definition execute_begin :: "connection \<Rightarrow> connection" where
  "execute_begin conn = conn \<lparr> txn := Some (current conn) \<rparr>"

definition execute_commit :: "connection \<Rightarrow> connection" where
  "execute_commit conn = \<lparr> committed = current conn, txn = None \<rparr>"

definition execute_rollback :: "connection \<Rightarrow> connection" where
  "execute_rollback conn = conn \<lparr> txn := None \<rparr>"

text \<open>\<^verbatim>\<open>create_variant_table\<close>: \<^verbatim>\<open>CREATE TABLE IF NOT EXISTS variants\<close> (the indexes hold no data).\<close>

definition create_variant_table :: "connection \<Rightarrow> connection" where
  "create_variant_table conn =
     (let db = current conn
      in case variants db of
           None \<Rightarrow> set_current conn (db \<lparr> variants := Some [] \<rparr>)
         | Some rows \<Rightarrow> conn)"

text \<open>
  Binding one record to the columns of \<^verbatim>\<open>INSERT INTO variants\<close>, in the order of \<^verbatim>\<open>cols\<close>. A
  value of the column's type is stored as it is; \<^verbatim>\<open>None\<close> is \<^verbatim>\<open>NULL\<close>, a constraint error in
  a \<^verbatim>\<open>NOT NULL\<close> column; an \<^verbatim>\<open>INTEGER\<close> is 32 bits wide. The model rejects a value of
  another type where the database might cast it, so it accepts no input that the database
  rejects.
\<close>

fun to_varchar :: "pyval \<Rightarrow> py_error + string option" where
  "to_varchar PNone = Inr None"
| "to_varchar (PStr s) = Inr (Some s)"
| "to_varchar _ = Inl ConversionError"

definition not_null :: "'a option \<Rightarrow> py_error + 'a" where
  "not_null x = (case x of None \<Rightarrow> Inl ConstraintError | Some v \<Rightarrow> Inr v)"

definition to_integer :: "int \<Rightarrow> py_error + int" where
  "to_integer n = (if - (2 ^ 31) \<le> n \<and> n < 2 ^ 31 then Inr n else Inl ConversionError)"

definition opt_integer :: "int option \<Rightarrow> py_error + int option" where
  "opt_integer x = (case x of None \<Rightarrow> Inr None | Some n \<Rightarrow> ebind (to_integer n) (\<lambda>m. Inr (Some m)))"

fun to_double :: "externals \<Rightarrow> pyval \<Rightarrow> py_error + pyfloat option" where
  "to_double E PNone = Inr None"
| "to_double E (PFloat f) = Inr (Some f)"
| "to_double E (PInt n) =
     (case double_of_int E n of None \<Rightarrow> Inl ConversionError | Some f \<Rightarrow> Inr (Some f))"
| "to_double E (PDecimal q) =
     (case double_of_decimal E q of None \<Rightarrow> Inl ConversionError | Some f \<Rightarrow> Inr (Some f))"
| "to_double E _ = Inl ConversionError"

fun mapE :: "('a \<Rightarrow> 'e + 'b) \<Rightarrow> 'a list \<Rightarrow> 'e + 'b list" where
  "mapE f [] = Inr []"
| "mapE f (x # xs) = ebind (f x) (\<lambda>y. ebind (mapE f xs) (\<lambda>ys. Inr (y # ys)))"

definition db_bind :: "externals \<Rightarrow> variant_record \<Rightarrow> py_error + variant_row" where
  "db_bind E r =
     ebind (ebind (to_varchar (variant_record.chromosome r)) not_null) (\<lambda>c_chromosome.
     ebind (ebind (to_varchar (variant_record.vid r)) not_null) (\<lambda>c_vid.
     ebind (to_integer (int (variant_record.variant_index r))) (\<lambda>c_variant_index.
     ebind (ebind (opt_integer (variant_record.position r)) not_null) (\<lambda>c_position.
     ebind (not_null (variant_record.quality r)) (\<lambda>c_quality.
     ebind (ebind (opt_integer (variant_record.begin_pos r)) not_null) (\<lambda>c_begin_pos.
     ebind (ebind (opt_integer (variant_record.end_pos r)) not_null) (\<lambda>c_end_pos.
     ebind (ebind (to_varchar (variant_record.ref_allele r)) not_null) (\<lambda>c_ref_allele.
     ebind (ebind (to_varchar (variant_record.alt_allele r)) not_null) (\<lambda>c_alt_allele.
     ebind (to_varchar (variant_record.genotype r)) (\<lambda>c_genotype.
     ebind (opt_integer (variant_record.total_depth r)) (\<lambda>c_total_depth.
     ebind (mapE to_integer (variant_record.allele_depths r)) (\<lambda>c_allele_depths.
     ebind (to_varchar (variant_record.paternal_genotype r)) (\<lambda>c_paternal_genotype.
     ebind (to_varchar (variant_record.maternal_genotype r)) (\<lambda>c_maternal_genotype.
     ebind (to_varchar (variant_record.variant_type r)) (\<lambda>c_variant_type.
     ebind (mapE to_varchar (variant_record.canonical_transcripts r)) (\<lambda>c_canonical_transcripts.
     ebind (mapE to_varchar (variant_record.transcript_consequences r)) (\<lambda>c_transcript_consequences.
     ebind (to_double E (variant_record.gnomad_af r)) (\<lambda>c_gnomad_af.
     ebind (mapE to_varchar (variant_record.clinvar_classifications r)) (\<lambda>c_clinvar_classifications.
     Inr \<lparr> vid = c_vid,
           chromosome = c_chromosome,
           variant_index = c_variant_index,
           position = c_position,
           quality = c_quality,
           begin_pos = c_begin_pos,
           end_pos = c_end_pos,
           ref_allele = c_ref_allele,
           alt_allele = c_alt_allele,
           genotype = c_genotype,
           genotype_quality = variant_record.genotype_quality r,
           total_depth = c_total_depth,
           allele_depths = Some c_allele_depths,
           maternal_genotype = c_maternal_genotype,
           paternal_genotype = c_paternal_genotype,
           variant_type = c_variant_type,
           gene_symbols = Some (map Some (variant_record.gene_symbols r)),
           canonical_transcripts = Some c_canonical_transcripts,
           transcript_consequences = Some c_transcript_consequences,
           gnomad_af = c_gnomad_af,
           clinvar_classifications = Some c_clinvar_classifications,
           raw = variant_record.raw r \<rparr>)))))))))))))))))))"

text \<open>\<^verbatim>\<open>PRIMARY KEY (vid, chromosome)\<close>.\<close>

definition pkey :: "variant_row \<Rightarrow> string \<times> string" where
  "pkey row = (vid row, chromosome row)"

text \<open>One \<^verbatim>\<open>INSERT INTO variants\<close> on a database.\<close>

definition insert_variant :: "externals \<Rightarrow> database \<Rightarrow> variant_record \<Rightarrow> py_error + database" where
  "insert_variant E db r =
     ebind (db_bind E r) (\<lambda>row.
       case variants db of
         None \<Rightarrow> Inl CatalogError
       | Some rows \<Rightarrow>
           if pkey row \<in> set (map pkey rows) then Inl ConstraintError
           else Inr (db \<lparr> variants := Some (rows @ [row]) \<rparr>))"

text \<open>
  \<^verbatim>\<open>batch_insert\<close>: \<^verbatim>\<open>executemany\<close> inserts the rows one after the other. A failure leaves the
  exception together with the connection as it is at that moment.
\<close>

fun batch_insert ::
  "externals \<Rightarrow> connection \<Rightarrow> variant_record list \<Rightarrow> py_error \<times> connection + connection" where
  "batch_insert E conn [] = Inr conn"
| "batch_insert E conn (r # rs) =
     (case insert_variant E (current conn) r of
        Inl e \<Rightarrow> Inl (e, conn)
      | Inr db \<Rightarrow> batch_insert E (set_current conn db) rs)"

text \<open>
  \<^verbatim>\<open>create_mapping_tables\<close>: each derived table is dropped and created again from
  \<^verbatim>\<open>SELECT vid, chromosome, UNNEST(col) FROM variants WHERE col IS NOT NULL\<close>.
\<close>

definition unnest_column ::
  "(variant_row \<Rightarrow> string option list option) \<Rightarrow> variant_row list \<Rightarrow> membership_row list" where
  "unnest_column col rows =
     concat (map (\<lambda>row. map (\<lambda>e. (vid row, chromosome row, e)) (the (col row)))
                 (filter (\<lambda>row. col row \<noteq> None) rows))"

definition create_mapping_tables :: "connection \<Rightarrow> py_error \<times> connection + connection" where
  "create_mapping_tables conn =
     (let db = current conn
      in case variants db of
           None \<Rightarrow> Inl (CatalogError, set_current conn (db \<lparr> variant_genes := None \<rparr>))
         | Some rows \<Rightarrow>
             Inr (set_current conn
                    (db \<lparr> variant_genes := Some (unnest_column gene_symbols rows),
                         variant_consequences := Some (unnest_column transcript_consequences rows),
                         clinvar_classifications :=
                           Some (unnest_column variant_row.clinvar_classifications rows) \<rparr>)))"

section \<open>The ingestion run: \<^verbatim>\<open>main\<close>\<close>

text \<open>
  What \<^verbatim>\<open>stream_positions\<close> yields: the decoded positions in file order and, when the file
  is cut short or malformed from some point on, the error that ends the stream.
\<close>

type_synonym position_stream = "pyval list \<times> py_error option"

text \<open>
  The body of the inner loop for one \<^verbatim>\<open>variant_index\<close>, on the set \<^verbatim>\<open>seen\<close> and the list
  \<^verbatim>\<open>batch\<close>.
\<close>

definition variant_step ::
  "externals \<Rightarrow> pyval \<Rightarrow> pyval \<Rightarrow> pyval list \<times> variant_record list \<Rightarrow> nat
     \<Rightarrow> py_error + pyval list \<times> variant_record list" where
  "variant_step E pos vs st i =
     (case st of (seen, batch) \<Rightarrow>
        ebind (py_index vs i) (\<lambda>variant.
        ebind (py_get variant ''vid'' PNone) (\<lambda>key.
        case py_key key of
          None \<Rightarrow> Inl TypeError
        | Some k \<Rightarrow>
            if Some k \<in> set (map py_key seen) then Inr (seen, batch)
            else ebind (build_variant_record E variant i pos) (\<lambda>record.
                 Inr (seen @ [key], batch @ [record])))))"

text \<open>\<^verbatim>\<open>for variant_index in range(len(position.get("variants", [])))\<close>.\<close>

definition variants_loop ::
  "externals \<Rightarrow> pyval list \<times> variant_record list \<Rightarrow> pyval
     \<Rightarrow> py_error + pyval list \<times> variant_record list" where
  "variants_loop E st pos =
     ebind (py_get pos ''variants'' (PList [])) (\<lambda>vs.
     ebind (py_len vs) (\<lambda>n.
     foldE (variant_step E pos vs) [0..<n] st))"

text \<open>
  The body of the outer loop for one position: the inner loop, then the flush of a full
  batch. The state is \<^verbatim>\<open>seen\<close>, \<^verbatim>\<open>batch\<close>, \<^verbatim>\<open>total\<close> and the connection.
\<close>

type_synonym run_state = "pyval list \<times> variant_record list \<times> nat \<times> connection"

definition position_step ::
  "externals \<Rightarrow> nat \<Rightarrow> run_state \<Rightarrow> pyval \<Rightarrow> py_error \<times> connection + run_state" where
  "position_step E batch_size st pos =
     (case st of (seen, batch, tot, conn) \<Rightarrow>
        (case variants_loop E (seen, batch) pos of
           Inl e \<Rightarrow> Inl (e, conn)
         | Inr (seen1, batch1) \<Rightarrow>
             if length batch1 \<ge> batch_size
             then ebind (batch_insert E conn batch1) (\<lambda>conn1.
                  Inr (seen1, [], tot + length batch1, conn1))
             else Inr (seen1, batch1, tot, conn)))"

text \<open>
  After the loop: \<^verbatim>\<open>if batch:\<close> the flush of the last batch, then \<^verbatim>\<open>COMMIT\<close>.
\<close>

definition final_flush :: "externals \<Rightarrow> run_state \<Rightarrow> py_error \<times> connection + nat \<times> connection" where
  "final_flush E st =
     (case st of (seen, batch, tot, conn) \<Rightarrow>
        if batch \<noteq> []
        then ebind (batch_insert E conn batch) (\<lambda>conn1.
             Inr (tot + length batch, execute_commit conn1))
        else Inr (tot, execute_commit conn))"

text \<open>
  The statements between \<^verbatim>\<open>try:\<close> and \<^verbatim>\<open>except\<close>: the loop over the stream, which ends with
  the stream's error if it has one, then the last flush and the commit.
\<close>

definition try_body ::
  "externals \<Rightarrow> nat \<Rightarrow> connection \<Rightarrow> position_stream \<Rightarrow> py_error \<times> connection + nat \<times> connection" where
  "try_body E batch_size conn stream =
     ebind (foldE (position_step E batch_size) (fst stream) ([], [], 0, conn)) (\<lambda>st.
       case snd stream of
         Some e \<Rightarrow> Inl (e, snd (snd (snd st)))
       | None \<Rightarrow> final_flush E st)"

text \<open>
  The run on a database file: \<^verbatim>\<open>connect\<close>, \<^verbatim>\<open>create_variant_table\<close>, \<^verbatim>\<open>BEGIN\<close>, the guarded
  body, \<^verbatim>\<open>ROLLBACK\<close> and re-raise on any exception, else \<^verbatim>\<open>create_mapping_tables\<close>. The
  result is the database file when the process ends, with the exception or the total it
  prints. The source fixes \<^verbatim>\<open>batch_size = 5000\<close>; the run is defined for any positive size.
\<close>

definition run_ingestion ::
  "externals \<Rightarrow> nat \<Rightarrow> database \<Rightarrow> position_stream \<Rightarrow> database \<times> (py_error + nat)" where
  "run_ingestion E batch_size db stream =
     (let conn = execute_begin (create_variant_table (connect db))
      in case try_body E batch_size conn stream of
           Inl (e, conn1) \<Rightarrow> (committed (execute_rollback conn1), Inl e)
         | Inr (tot, conn1) \<Rightarrow>
             (case create_mapping_tables conn1 of
                Inl (e, conn2) \<Rightarrow> (committed conn2, Inl e)
              | Inr conn2 \<Rightarrow> (committed conn2, Inr tot)))"

definition main :: "externals \<Rightarrow> database \<Rightarrow> position_stream \<Rightarrow> database \<times> (py_error + nat)" where
  "main E db stream = run_ingestion E 5000 db stream"

section \<open>The query engine: \<^verbatim>\<open>query_variants\<close>\<close>

text \<open>
  Comparison of \<^verbatim>\<open>DOUBLE\<close> values in the database: the numeric order, with \<^verbatim>\<open>NaN\<close> above
  every other value and equal to itself.
\<close>

fun double_le :: "pyfloat \<Rightarrow> pyfloat \<Rightarrow> bool" where
  "double_le x NaN = True"
| "double_le NaN y = False"
| "double_le NegInf y = True"
| "double_le x NegInf = False"
| "double_le x PosInf = True"
| "double_le PosInf y = False"
| "double_le (Finite a) (Finite b) = (a \<le> b)"

text \<open>
  \<^verbatim>\<open>query.join(t, (t.c.vid == variants.c.vid) & (t.c.chromosome == variants.c.chromosome))\<close>
  followed by \<^verbatim>\<open>.where(p)\<close> on the value column of \<open>t\<close>: one copy of a variant row for each
  row of \<open>t\<close> that carries its key and a value satisfying \<open>p\<close>. A \<^verbatim>\<open>NULL\<close> value satisfies no
  comparison.
\<close>

definition join_where ::
  "variant_row list \<Rightarrow> membership_row list \<Rightarrow> (string \<Rightarrow> bool) \<Rightarrow> variant_row list" where
  "join_where rows t p =
     concat (map (\<lambda>row.
        map (\<lambda>m. row)
          (filter (\<lambda>m. fst m = vid row \<and> fst (snd m) = chromosome row \<and>
                       (case snd (snd m) of None \<Rightarrow> False | Some v \<Rightarrow> p v)) t)) rows)"

record variant_query_results =
  result_variants :: "variant_row list"
  total_variants :: nat

text \<open>The \<^verbatim>\<open>ORDER BY\<close> columns.\<close>

definition order_cols :: "variant_row \<Rightarrow> string \<times> int \<times> int" where
  "order_cols row = (chromosome row, begin_pos row, variant_index row)"

text \<open>
  \<^verbatim>\<open>_build_and_execute_query\<close>. A filter is active when its argument is truthy (\<^verbatim>\<open>if gene:\<close>,
  \<^verbatim>\<open>if clinvar:\<close>, \<^verbatim>\<open>if consequence:\<close>) or, for the frequency, not \<^verbatim>\<open>None\<close>. The four tables
  are loaded first, so a missing one is an error. \<^verbatim>\<open>SELECT DISTINCT\<close> keeps one copy of each
  row; the count is taken over that query; the page is the same query ordered, from
  \<open>offset\<close> on (a natural number: a negative offset is not modelled). Rows that agree on
  all three order columns come in the order the sort leaves them in.
\<close>

definition build_and_execute_query ::
  "database \<Rightarrow> string option \<Rightarrow> string list option \<Rightarrow> string list option \<Rightarrow> pyfloat option
     \<Rightarrow> nat \<Rightarrow> py_error + variant_query_results" where
  "build_and_execute_query db gene clinvar consequence max_gnomad_freq offset =
     (case (variants db, variant_genes db, variant_consequences db,
            database.clinvar_classifications db) of
        (Some rows, Some var_genes, Some var_consequences, Some classifications) \<Rightarrow>
          (let q0 = rows;
               q1 = (case gene of
                       Some g \<Rightarrow> if g \<noteq> [] then join_where q0 var_genes (\<lambda>v. v = g) else q0
                     | None \<Rightarrow> q0);
               q2 = (case clinvar of
                       Some cs \<Rightarrow> if cs \<noteq> [] then join_where q1 classifications (\<lambda>v. v \<in> set cs) else q1
                     | None \<Rightarrow> q1);
               q3 = (case consequence of
                       Some cs \<Rightarrow> if cs \<noteq> [] then join_where q2 var_consequences (\<lambda>v. v \<in> set cs) else q2
                     | None \<Rightarrow> q2);
               q4 = (case max_gnomad_freq of
                       Some m \<Rightarrow> filter (\<lambda>row. case gnomad_af row of None \<Rightarrow> False
                                                 | Some af \<Rightarrow> double_le af m) q3
                     | None \<Rightarrow> q3);
               query = remdups q4
           in Inr \<lparr> result_variants = drop offset (sort_key order_cols query),
                    total_variants = length query \<rparr>)
      | _ \<Rightarrow> Inl CatalogError)"

text \<open>
  \<^verbatim>\<open>query_variants\<close>: the source uses \<open>limit\<close> in one \<^verbatim>\<open>print\<close> and nowhere else. The report
  text built from the result is not modelled.
\<close>

definition query_variants ::
  "database \<Rightarrow> string option \<Rightarrow> string list option \<Rightarrow> string list option \<Rightarrow> pyfloat option
     \<Rightarrow> int \<Rightarrow> nat \<Rightarrow> py_error + variant_query_results" where
  "query_variants db gene clinvar consequence max_gnomad_freq limit offset =
     build_and_execute_query db gene clinvar consequence max_gnomad_freq offset"

section \<open>Notions of the specification and of the proofs\<close>

text \<open>The elements of a set-valued attribute: none when it is null.\<close>

definition elements :: "'a list option \<Rightarrow> 'a list" where
  "elements xs = (case xs of None \<Rightarrow> [] | Some ys \<Rightarrow> ys)"

text \<open>Each derived table with the attribute it flattens.\<close>

definition derived_tables ::
  "database \<Rightarrow> ((variant_row \<Rightarrow> string option list option) \<times> membership_row list option) list" where
  "derived_tables db =
     [(gene_symbols, variant_genes db),
      (transcript_consequences, variant_consequences db),
      (variant_row.clinvar_classifications, database.clinvar_classifications db)]"


text \<open>
  The sample at index \<open>i\<close> of a position, or an empty object: 0 is the proband, 1 the
  paternal and 2 the maternal sample.
\<close>

definition sample_of :: "(string \<times> pyval) list \<Rightarrow> nat \<Rightarrow> pyval" where
  "sample_of pos i = sample_or_empty (dict_get pos ''samples'' (PList [])) i"

text \<open>
  Genotype normalisation as the specification words it: each \<open>|\<close> becomes \<open>/\<close>, each \<open>.\<close>
  becomes \<open>0\<close>, any other character and any value that is not a string stay.
\<close>

definition unphased :: "pyval \<Rightarrow> pyval" where
  "unphased g =
     (case g of
        PStr s \<Rightarrow> PStr (map (\<lambda>c. if c = CHR ''|'' then CHR ''/''
                               else if c = CHR ''.'' then CHR ''0'' else c) s)
      | _ \<Rightarrow> g)"

text \<open>
  The transcript entries of a variant.
\<close>

definition transcripts_of :: "(string \<times> pyval) list \<Rightarrow> pyval list" where
  "transcripts_of variant = as_list (dict_get variant ''transcripts'' (PList []))"

text \<open>
  An object lacks a field.
\<close>

definition lacks :: "pyval \<Rightarrow> string \<Rightarrow> bool" where
  "lacks v k = (case v of PDict kvs \<Rightarrow> map_of kvs k = None | _ \<Rightarrow> True)"

text \<open>
  The canonical flag of a transcript is truthy.
\<close>

definition canonical :: "pyval \<Rightarrow> bool" where
  "canonical t = py_truthy (field t ''isCanonical'' PNone)"

text \<open>
  The nested population-frequency field \<open>gnomad.allAf\<close> of a variant, when present.
\<close>

definition population_frequency :: "(string \<times> pyval) list \<Rightarrow> pyval option" where
  "population_frequency variant =
     (case map_of variant ''gnomad'' of Some (PDict kvs) \<Rightarrow> map_of kvs ''allAf'' | _ \<Rightarrow> None)"

text \<open>
  A numeric entry: an integer, a float or a decimal number.
\<close>

fun json_number :: "pyval \<Rightarrow> bool" where
  "json_number (PInt n) = True"
| "json_number (PFloat f) = True"
| "json_number (PDecimal q) = True"
| "json_number _ = False"

text \<open>
  The variant entries of a position, each with its index and its position, and those of a
  stream, in file order.
\<close>

type_synonym entry = "pyval \<times> nat \<times> pyval"

definition entries_of :: "pyval \<Rightarrow> entry list" where
  "entries_of pos =
     (let vs = as_list (field pos ''variants'' (PList []))
      in map (\<lambda>i. (vs ! i, i, pos)) [0..<length vs])"

definition all_entries :: "pyval list \<Rightarrow> entry list" where
  "all_entries ps = concat (map entries_of ps)"

text \<open>The \<open>vid\<close> of an entry, as the set \<^verbatim>\<open>seen\<close> compares it.\<close>

definition vid_key :: "entry \<Rightarrow> pykey option" where
  "vid_key e = py_key (field (fst e) ''vid'' PNone)"

text \<open>The entries whose \<open>vid\<close> is not among the keys \<open>K\<close> and occurs in no earlier entry.\<close>

fun first_seen :: "pykey option set \<Rightarrow> entry list \<Rightarrow> entry list" where
  "first_seen K [] = []"
| "first_seen K (e # es) =
     (if vid_key e \<in> K then first_seen K es else e # first_seen (insert (vid_key e) K) es)"

text \<open>The record of an entry, and the row that is stored for an entry.\<close>

definition built :: "externals \<Rightarrow> entry \<Rightarrow> variant_record \<Rightarrow> bool" where
  "built E e r = (build_variant_record E (fst e) (fst (snd e)) (snd (snd e)) = Inr r)"

definition stored :: "externals \<Rightarrow> entry \<Rightarrow> variant_row \<Rightarrow> bool" where
  "stored E e row =
     (case build_variant_record E (fst e) (fst (snd e)) (snd (snd e)) of
        Inl err \<Rightarrow> False
      | Inr r \<Rightarrow> db_bind E r = Inr row)"

text \<open>The rows of the table of variants of a database: none when the table is missing.\<close>

definition variant_rows :: "database \<Rightarrow> variant_row list" where
  "variant_rows db = elements (variants db)"

text \<open>
  A transaction is open on the connection, and the table of variants exists in it.
\<close>

definition in_txn :: "connection \<Rightarrow> bool" where
  "in_txn conn = (txn conn \<noteq> None \<and> variants (current conn) \<noteq> None)"

text \<open>
  The database once \<^verbatim>\<open>create_variant_table\<close> has run: it differs from the given one only when
  the table of variants was missing, which it then holds empty.
\<close>

definition table_created :: "database \<Rightarrow> database" where
  "table_created db = (case variants db of None \<Rightarrow> db \<lparr> variants := Some [] \<rparr> | Some rows \<Rightarrow> db)"

section \<open>Example data\<close>

text \<open>
  An instance of the library parameters for evaluation: it parses no string and rounds no
  number.
\<close>

definition plain :: externals where
  "plain = \<lparr> int_of_str = (\<lambda>s. None), float_of_str = (\<lambda>s. None),
             float_of_int = (\<lambda>n. Some (Finite (of_int n))), float_of_decimal = Finite,
             str_of = (\<lambda>v. []), double_of_int = (\<lambda>n. Some (Finite (of_int n))),
             double_of_decimal = (\<lambda>q. Some (Finite q)) \<rparr>"

text \<open>
  A row as the scenario of the specification describes it: gene symbol BRCA1, classification
  Pathogenic, allele frequency 0.0001. The key and the begin position vary.
\<close>

definition example_row :: "string \<Rightarrow> string \<Rightarrow> int \<Rightarrow> variant_row" where
  "example_row v c b =
     \<lparr> vid = v, chromosome = c, variant_index = 0, position = b, quality = Finite 50,
       begin_pos = b, end_pos = b, ref_allele = ''A'', alt_allele = ''G'',
       genotype = Some ''0/1'', genotype_quality = None, total_depth = None,
       allele_depths = Some [], maternal_genotype = None, paternal_genotype = None,
       variant_type = Some ''SNV'', gene_symbols = Some [Some ''BRCA1''],
       canonical_transcripts = Some [], transcript_consequences = Some [],
       gnomad_af = Some (Finite (1 / 10000)),
       clinvar_classifications = Some [Some ''Pathogenic''], raw = PDict [] \<rparr>"


text \<open>Two rows on one chromosome, in the order of the query.\<close>

definition two_rows :: "variant_row list" where
  "two_rows = [example_row ''v1'' ''chr1'' 100, example_row ''v2'' ''chr1'' 200]"

text \<open>The database that holds the given rows and the three tables derived from them.\<close>

definition rebuilt :: "variant_row list \<Rightarrow> database" where
  "rebuilt rows =
     \<lparr> variants = Some rows,
       variant_genes = Some (unnest_column gene_symbols rows),
       variant_consequences = Some (unnest_column transcript_consequences rows),
       clinvar_classifications = Some (unnest_column variant_row.clinvar_classifications rows) \<rparr>"

text \<open>
  A new database file.
\<close>

definition empty_database :: database where
  "empty_database = \<lparr> variants = None, variant_genes = None, variant_consequences = None,
                       clinvar_classifications = None \<rparr>"

text \<open>A database that holds one row, with the key \<open>(b, chr1)\<close>.\<close>

definition holding_b :: database where
  "holding_b = rebuilt [example_row ''b'' ''chr1'' 100]"

text \<open>
  A variant with three transcripts: a canonical one without a transcript identifier, a
  canonical one with an identifier, and one that is not canonical.
\<close>

definition example_variant :: "(string \<times> pyval) list" where
  "example_variant =
     [(''vid'', PStr ''17-43093464-T-C''), (''begin'', PInt 43093464), (''end'', PInt 43093464),
      (''refAllele'', PStr ''T''), (''altAllele'', PStr ''C''), (''variantType'', PStr ''SNV''),
      (''gnomad'', PDict [(''allAf'', PDecimal (1 / 10000))]),
      (''transcripts'', PList
         [PDict [(''hgnc'', PStr ''BRCA1''), (''isCanonical'', PBool True),
                 (''consequence'', PList [PStr ''missense_variant''])],
          PDict [(''transcript'', PStr ''NM_007294.4''), (''hgnc'', PStr ''BRCA1''),
                 (''isCanonical'', PBool True)],
          PDict [(''transcript'', PStr ''NM_007297.4''), (''hgnc'', PStr ''BRCA1''),
                 (''isCanonical'', PBool False)]])]"

text \<open>
  A position with three samples; the proband's allele depths hold an integer, a boolean, a
  string and a decimal number.
\<close>

definition example_position :: "(string \<times> pyval) list" where
  "example_position =
     [(''chromosome'', PStr ''chr17''), (''position'', PInt 43093464), (''quality'', PInt 50),
      (''samples'', PList
         [PDict [(''genotype'', PStr ''0|1''),
                 (''alleleDepths'', PList [PInt 10, PBool True, PStr ''x'', PDecimal (5 / 2)])],
          PDict [(''genotype'', PStr ''./.'')],
          PDict [(''genotype'', PStr ''.|1'')]])]"

text \<open>
  A variant whose population-frequency field is present and null.
\<close>

definition null_af_variant :: "(string \<times> pyval) list" where
  "null_af_variant = [(''vid'', PStr ''v1''), (''gnomad'', PDict [(''allAf'', PNone)])]"

text \<open>
  A position whose proband has the allele depths \<open>[10, 2.5]\<close>.
\<close>

definition decimal_depths_position :: "(string \<times> pyval) list" where
  "decimal_depths_position =
     [(''samples'', PList [PDict [(''alleleDepths'', PList [PInt 10, PDecimal (5 / 2)])]])]"

text \<open>
  A position whose proband has the allele depths \<open>[10, inf]\<close>, \<open>inf\<close> a float.
\<close>

definition infinite_depths_position :: "(string \<times> pyval) list" where
  "infinite_depths_position =
     [(''samples'', PList [PDict [(''alleleDepths'', PList [PInt 10, PFloat PosInf])]])]"

text \<open>
  A minimal variant with the fields that the \<^verbatim>\<open>NOT NULL\<close> columns need, and a position that
  holds such variants.
\<close>

definition mk_variant :: "string \<Rightarrow> pyval" where
  "mk_variant v =
     PDict [(''vid'', PStr v), (''begin'', PInt 100), (''end'', PInt 100),
            (''refAllele'', PStr ''A''), (''altAllele'', PStr ''G'')]"

definition mk_position :: "string \<Rightarrow> pyval list \<Rightarrow> pyval" where
  "mk_position c vs =
     PDict [(''chromosome'', PStr c), (''position'', PInt 100), (''quality'', PInt 50),
            (''variants'', PList vs)]"

text \<open>
  A stream of two positions on different chromosomes with four variant entries and three
  distinct \<open>vid\<close>s: \<open>a\<close> occurs on both.
\<close>

definition example_stream :: position_stream where
  "example_stream =
     ([mk_position ''chr1'' [mk_variant ''a'', mk_variant ''b''],
       mk_position ''chr2'' [mk_variant ''a'', mk_variant ''c'']], None)"

text \<open>
  A stream of two positions with one variant each; the key of the second is the key of the
  row that \<open>holding_b\<close> holds.
\<close>

definition colliding_stream :: position_stream where
  "colliding_stream =
     ([mk_position ''chr1'' [mk_variant ''a''], mk_position ''chr1'' [mk_variant ''b'']], None)"

section \<open>Properties of the query engine\<close>

lemma example_row_eq [simp]:
  "(example_row v c b = example_row v' c' b') = (v = v' \<and> c = c' \<and> b = b')"
  by (auto simp: example_row_def)

lemma example_row_sel [simp]:
  "vid (example_row v c b) = v"
  "chromosome (example_row v c b) = c"
  "begin_pos (example_row v c b) = b"
  "variant_index (example_row v c b) = 0"
  "gnomad_af (example_row v c b) = Some (Finite (1 / 10000))"
  "gene_symbols (example_row v c b) = Some [Some ''BRCA1'']"
  "variant_row.clinvar_classifications (example_row v c b) = Some [Some ''Pathogenic'']"
  "transcript_consequences (example_row v c b) = Some []"
  by (simp_all add: example_row_def)

text \<open>
  Claim C1 says that a query returns at most \<open>limit\<close> records. The source never applies
  \<open>limit\<close> to the query: on a store of two rows, with no filter, \<open>limit = 1\<close> and
  \<open>offset = 0\<close>, the page holds both rows.
\<close>

theorem query_variants_ignores_limit:
  "map_sum id (\<lambda>r. length (result_variants r))
     (query_variants (rebuilt two_rows) None None None None 1 0) = Inr 2"
  by (simp add: query_variants_def build_and_execute_query_def rebuilt_def two_rows_def
      order_cols_def)

text \<open>
  Claim C2 says that the pages at \<open>offset = k\<close> and \<open>offset = k + p\<close>, both with \<open>limit = p\<close>,
  are disjoint. With \<open>k = 0\<close> and \<open>p = 1\<close> on the same store the first page is the whole
  result and the second page is its tail: the row \<open>v2\<close> is on both.
\<close>

theorem query_variants_pages_overlap:
  "map_sum id (\<lambda>r. map vid (result_variants r))
     (query_variants (rebuilt two_rows) None None None None 1 0) = Inr [''v1'', ''v2''] \<and>
   map_sum id (\<lambda>r. map vid (result_variants r))
     (query_variants (rebuilt two_rows) None None None None 1 1) = Inr [''v2'']"
  by (simp add: query_variants_def build_and_execute_query_def rebuilt_def two_rows_def
      order_cols_def)





section \<open>Properties of the derived tables\<close>

lemma current_set_current [simp]: "current (set_current conn db) = db"
  by (simp add: current_def set_current_def split: option.splits)

lemma unnest_column_elements:
  "unnest_column col rows =
     concat (map (\<lambda>row. map (\<lambda>e. (vid row, chromosome row, e)) (elements (col row))) rows)"
  by (induction rows) (auto simp: unnest_column_def elements_def)

lemma length_unnest_column:
  "length (unnest_column col rows) = (\<Sum>row\<leftarrow>rows. length (elements (col row)))"
  by (simp add: unnest_column_elements length_concat comp_def)

lemma set_unnest_column:
  "set (unnest_column col rows) =
     (\<Union>row\<in>set rows. (\<lambda>e. (vid row, chromosome row, e)) ` set (elements (col row)))"
  by (auto simp: unnest_column_elements)

lemma distinct_unnest_column:
  assumes "distinct (map pkey rows)" and "\<forall>row\<in>set rows. distinct (elements (col row))"
  shows "distinct (unnest_column col rows)"
  using assms
proof (induction rows)
  case Nil
  then show ?case by (simp add: unnest_column_elements)
next
  case (Cons row rows)
  have head: "distinct (map (\<lambda>e. (vid row, chromosome row, e)) (elements (col row)))"
    using Cons.prems(2) by (simp add: distinct_map inj_on_def)
  have tail: "distinct (unnest_column col rows)"
    using Cons by simp
  have disj: "(\<lambda>e. (vid row, chromosome row, e)) ` set (elements (col row))
                \<inter> set (unnest_column col rows) = {}"
    using Cons.prems(1) by (auto simp: set_unnest_column pkey_def image_iff)
  have "unnest_column col (row # rows) =
          map (\<lambda>e. (vid row, chromosome row, e)) (elements (col row)) @ unnest_column col rows"
    by (simp add: unnest_column_elements)
  with head tail disj show ?case by simp
qed

lemma sum_card_elements:
  assumes "\<forall>row\<in>set rows. distinct (elements (col row))"
  shows "(\<Sum>row\<leftarrow>rows. length (elements (col row))) =
         (\<Sum>row\<leftarrow>rows. card (set (elements (col row))))"
  using assms by (induction rows) (simp_all add: distinct_card)

text \<open>
  Claim C7. When the table of variants exists with the rows \<open>rows\<close>, the rebuild succeeds and
  leaves the rows as they are; each derived table then exists, its row count is the sum over
  the records of the number of elements of the attribute (none for a null or empty one), and
  its rows are exactly the triples of a record's key with an element of its attribute. When
  the keys are unique and no attribute repeats an element, no row of a derived table occurs
  twice, and the count is the sum of the cardinalities.
\<close>

theorem create_mapping_tables_one_row_per_element:
  assumes "variants (current conn) = Some rows"
  shows "\<exists>conn'. create_mapping_tables conn = Inr conn' \<and>
           variants (current conn') = Some rows \<and>
           (\<forall>(col, tab) \<in> set (derived_tables (current conn')).
              \<exists>ms. tab = Some ms \<and>
                length ms = (\<Sum>row\<leftarrow>rows. length (elements (col row))) \<and>
                set ms = (\<Union>row\<in>set rows.
                            (\<lambda>e. (vid row, chromosome row, e)) ` set (elements (col row))) \<and>
                (distinct (map pkey rows) \<and> (\<forall>row\<in>set rows. distinct (elements (col row)))
                   \<longrightarrow> distinct ms \<and>
                       length ms = (\<Sum>row\<leftarrow>rows. card (set (elements (col row))))))"
  using assms
  by (simp add: create_mapping_tables_def Let_def derived_tables_def length_unnest_column
      set_unnest_column distinct_unnest_column sum_card_elements)

text \<open>The theorem at a database that holds two rows and no derived table yet.\<close>

theorem create_mapping_tables_witness:
  "\<exists>conn' ms. create_mapping_tables (connect \<lparr> variants = Some two_rows, variant_genes = None,
        variant_consequences = None, clinvar_classifications = None \<rparr>) = Inr conn' \<and>
      variant_genes (current conn') = Some ms \<and> length ms = 2 \<and> distinct ms"
proof -
  let ?conn = "connect \<lparr> variants = Some two_rows, variant_genes = None,
        variant_consequences = None, clinvar_classifications = None \<rparr>"
  have v: "variants (current ?conn) = Some two_rows"
    by (simp add: connect_def current_def)
  have d: "distinct (map pkey two_rows) \<and>
           (\<forall>row\<in>set two_rows. distinct (elements (gene_symbols row)))"
    by (simp add: two_rows_def pkey_def elements_def)
  have n: "(\<Sum>row\<leftarrow>two_rows. length (elements (gene_symbols row))) = 2"
    by (simp add: two_rows_def elements_def)
  from create_mapping_tables_one_row_per_element [OF v]
  obtain conn' where c: "create_mapping_tables ?conn = Inr conn'"
    and t: "\<forall>(col, tab) \<in> set (derived_tables (current conn')).
              \<exists>ms. tab = Some ms \<and>
                length ms = (\<Sum>row\<leftarrow>two_rows. length (elements (col row))) \<and>
                set ms = (\<Union>row\<in>set two_rows.
                            (\<lambda>e. (vid row, chromosome row, e)) ` set (elements (col row))) \<and>
                (distinct (map pkey two_rows) \<and> (\<forall>row\<in>set two_rows. distinct (elements (col row)))
                   \<longrightarrow> distinct ms \<and>
                       length ms = (\<Sum>row\<leftarrow>two_rows. card (set (elements (col row)))))"
    by blast
  have "(gene_symbols, variant_genes (current conn')) \<in> set (derived_tables (current conn'))"
    by (simp add: derived_tables_def)
  from bspec [OF t this]
  have "\<exists>ms. variant_genes (current conn') = Some ms \<and>
                length ms = (\<Sum>row\<leftarrow>two_rows. length (elements (gene_symbols row))) \<and>
                (distinct (map pkey two_rows) \<and>
                 (\<forall>row\<in>set two_rows. distinct (elements (gene_symbols row)))
                   \<longrightarrow> distinct ms)"
    by auto
  with c d n show ?thesis by auto
qed

section \<open>Properties of the normaliser\<close>

lemma py_get_dict: "is_dict v \<Longrightarrow> py_get v k d = Inr (field v k d)"
  by (cases v) (simp_all add: field_def)

lemma sample_at_list: "sample_at (PList xs) i = Inr (sample_or_empty (PList xs) i)"
  by (simp add: sample_at_def sample_or_empty_def)

lemma sample_is_dict:
  assumes "samples_ok samples" and "i < 3"
  shows "is_dict (sample_or_empty samples i)"
proof (cases samples)
  case (PList xs)
  show ?thesis
  proof (cases "i < length xs")
    case True
    with assms(2) have "xs ! i \<in> set (take 3 xs)"
      by (metis in_set_conv_nth length_take min_less_iff_conj nth_take)
    with assms(1) PList True show ?thesis
      by (simp add: samples_ok_def sample_or_empty_def list_all_iff)
  next
    case False
    with PList show ?thesis by (simp add: sample_or_empty_def)
  qed
qed (use assms in \<open>simp_all add: samples_ok_def\<close>)

lemma set_add_ok: "hashable x \<Longrightarrow> \<exists>s'. set_add s x = Inr s'"
  by (auto simp: set_add_def hashable_def)

lemma foldE_set_add_ok: "list_all hashable xs \<Longrightarrow> \<exists>s'. foldE set_add xs s = Inr s'"
proof (induction xs arbitrary: s)
  case Nil
  then show ?case by simp
next
  case (Cons x xs)
  then obtain s1 where "set_add s x = Inr s1" using set_add_ok by fastforce
  with Cons show ?case by simp
qed

lemma set_update_ok: "items_ok hashable v \<Longrightarrow> \<exists>s'. set_update s v = Inr s'"
  by (auto simp: items_ok_def set_update_def foldE_set_add_ok split: sum.splits)

lemma transcript_step_ok:
  assumes "transcript_ok t"
  shows "\<exists>st'. transcript_step B st t = Inr st'"
proof -
  obtain g c q where st: "st = (g, c, q)" by (cases st) auto
  from assms have d: "is_dict t" by (simp add: transcript_ok_def)
  from assms obtain q' where q': "set_update q (field t ''consequence'' (PList [])) = Inr q'"
    using set_update_ok by (fastforce simp: transcript_ok_def)
  show ?thesis
  proof (cases "py_truthy (field t ''isCanonical'' PNone)")
    case True
    with assms obtain c' where "set_add c (field t ''transcript'' PNone) = Inr c'"
      using set_add_ok by (fastforce simp: transcript_ok_def)
    with True d q' st show ?thesis
      by (simp add: transcript_step_def py_get_dict Let_def)
  next
    case False
    with d q' st show ?thesis
      by (simp add: transcript_step_def py_get_dict Let_def)
  qed
qed

lemma foldE_ok:
  assumes "\<And>s x. P x \<Longrightarrow> \<exists>s'. f s x = Inr s'"
  shows "list_all P xs \<Longrightarrow> \<exists>s'. foldE f xs s = Inr s'"
proof (induction xs arbitrary: s)
  case Nil
  then show ?case by simp
next
  case (Cons x xs)
  then obtain s1 where "f s x = Inr s1" using assms by fastforce
  with Cons show ?case by simp
qed

lemma collect_transcripts_ok:
  assumes "items_ok transcript_ok v"
  shows "\<exists>r. collect_transcripts B v = Inr r"
proof -
  from assms obtain ts where ts: "py_iter v = Inr ts" "list_all transcript_ok ts"
    by (auto simp: items_ok_def split: sum.splits)
  have "\<exists>r. foldE (transcript_step B) ts ([], [], []) = Inr r"
    using foldE_ok [of transcript_ok "transcript_step B" ts "([], [], [])"] transcript_step_ok ts(2)
    by blast
  with ts(1) show ?thesis by (simp add: collect_transcripts_def)
qed

lemma clinvar_step_ok:
  assumes "clinvar_ok e"
  shows "\<exists>s'. clinvar_step s e = Inr s'"
proof -
  let ?c = "field e ''classifications'' (PDict [])"
  let ?g = "field ?c ''germlineClassification'' (PDict [])"
  let ?cl = "field ?g ''classification'' PNone"
  from assms have d: "is_dict e" "is_dict ?c" "is_dict ?g" and h: "py_truthy ?cl \<longrightarrow> hashable ?cl"
    by (simp_all add: clinvar_ok_def Let_def)
  show ?thesis
  proof (cases "py_truthy ?cl")
    case True
    with h obtain s' where "set_add s ?cl = Inr s'" using set_add_ok by fastforce
    with True d show ?thesis by (simp add: clinvar_step_def py_get_dict)
  next
    case False
    with d show ?thesis by (simp add: clinvar_step_def py_get_dict)
  qed
qed

lemma collect_clinvar_ok:
  assumes "items_ok clinvar_ok v"
  shows "\<exists>r. collect_clinvar v = Inr r"
proof -
  from assms obtain es where es: "py_iter v = Inr es" "list_all clinvar_ok es"
    by (auto simp: items_ok_def split: sum.splits)
  have "\<exists>r. foldE clinvar_step es [] = Inr r"
    using foldE_ok [of clinvar_ok clinvar_step es "[]"] clinvar_step_ok es(2)
    by blast
  with es(1) show ?thesis by (simp add: collect_clinvar_def)
qed

lemma opt_int_ok: "int_ok B x \<Longrightarrow> \<exists>n. opt_int B x = Inr n"
  by (auto simp: int_ok_def opt_int_def succeeds_def split: sum.splits)

lemma opt_float_ok: "float_ok B x \<Longrightarrow> \<exists>n. opt_float B x = Inr n"
  by (auto simp: float_ok_def opt_float_def succeeds_def split: sum.splits)

lemma depth_ints_finite:
  "list_all finite_entry xs \<Longrightarrow> depth_ints B xs = Inr (List.map_filter int_entry xs)"
proof (induction xs)
  case Nil
  then show ?case by simp
next
  case (Cons x xs)
  then show ?case
    by (cases x rule: int_entry.cases) simp_all
qed

lemma build_variant_record_well_formed:
  assumes wf: "well_formed E variant pos"
  shows "\<exists>r sets. build_variant_record E (PDict variant) idx (PDict pos) = Inr r \<and>
     variant_record.vid r = dict_get variant ''vid'' PNone \<and>
     variant_record.chromosome r = dict_get pos ''chromosome'' PNone \<and>
     variant_record.variant_index r = idx \<and>
     variant_record.raw r = PDict variant \<and>
     variant_record.genotype r = normalize_genotype (field (sample_of pos 0) ''genotype'' PNone) \<and>
     variant_record.paternal_genotype r = normalize_genotype (field (sample_of pos 1) ''genotype'' PNone) \<and>
     variant_record.maternal_genotype r = normalize_genotype (field (sample_of pos 2) ''genotype'' PNone) \<and>
     variant_record.allele_depths r =
       List.map_filter int_entry (as_list (field (sample_of pos 0) ''alleleDepths'' (PList []))) \<and>
     variant_record.gnomad_af r =
       gnomad_default (field (dict_get variant ''gnomad'' (PDict [])) ''allAf'' PNone) \<and>
     collect_transcripts E (dict_get variant ''transcripts'' (PList [])) = Inr sets \<and>
     variant_record.gene_symbols r = fst sets \<and>
     variant_record.canonical_transcripts r = fst (snd sets) \<and>
     variant_record.transcript_consequences r = snd (snd sets)"
proof -
  let ?samples = "dict_get pos ''samples'' (PList [])"
  from wf have so: "samples_ok ?samples" by (simp add: well_formed_def Let_def)
  then obtain xs where xs: "?samples = PList xs"
    by (cases ?samples) (simp_all add: samples_ok_def)
  have sa: "\<And>i. sample_at ?samples i = Inr (sample_of pos i)"
    by (simp add: xs sample_at_list sample_of_def)
  have sd: "is_dict (sample_of pos 0)" "is_dict (sample_of pos (Suc 0))" "is_dict (sample_of pos 2)"
    using so by (simp_all add: sample_of_def sample_is_dict)
  from wf obtain sets where tr: "collect_transcripts E (dict_get variant ''transcripts'' (PList [])) = Inr sets"
    using collect_transcripts_ok by (fastforce simp: well_formed_def Let_def)
  from wf obtain cls where cl: "collect_clinvar (dict_get variant ''clinvar-preview'' (PList [])) = Inr cls"
    using collect_clinvar_ok by (fastforce simp: well_formed_def Let_def)
  from wf have "is_dict (dict_get variant ''gnomad'' (PDict []))"
    by (simp add: well_formed_def Let_def)
  then have gn: "gnomad_lookup variant = Inr (field (dict_get variant ''gnomad'' (PDict [])) ''allAf'' PNone)"
    by (simp add: gnomad_lookup_def py_get_dict)
  from wf obtain p1 where p1: "opt_int E (dict_get pos ''position'' PNone) = Inr p1"
    using opt_int_ok by (fastforce simp: well_formed_def Let_def)
  from wf obtain q1 where q1: "opt_float E (dict_get pos ''quality'' PNone) = Inr q1"
    using opt_float_ok by (fastforce simp: well_formed_def Let_def)
  from wf obtain b1 where b1: "opt_int E (dict_get variant ''begin'' PNone) = Inr b1"
    using opt_int_ok by (fastforce simp: well_formed_def Let_def)
  from wf obtain e1 where e1: "opt_int E (dict_get variant ''end'' PNone) = Inr e1"
    using opt_int_ok by (fastforce simp: well_formed_def Let_def)
  from wf obtain g1 where g1: "opt_float E (field (sample_of pos 0) ''genotypeQuality'' PNone) = Inr g1"
    using opt_float_ok by (fastforce simp: well_formed_def Let_def sample_of_def)
  from wf obtain t1 where t1: "opt_int E (field (sample_of pos 0) ''totalDepth'' PNone) = Inr t1"
    using opt_int_ok by (fastforce simp: well_formed_def Let_def sample_of_def)
  from wf have "list_all finite_entry (as_list (field (sample_of pos 0) ''alleleDepths'' (PList [])))"
    by (simp add: well_formed_def Let_def sample_of_def)
  then have ad: "depth_ints E (as_list (field (sample_of pos 0) ''alleleDepths'' (PList []))) =
      Inr (List.map_filter int_entry (as_list (field (sample_of pos 0) ''alleleDepths'' (PList []))))"
    by (rule depth_ints_finite)
  show ?thesis
    by (simp add: Let_def sa py_get_dict sd tr cl gn p1 q1 b1 e1 g1 t1 ad)
qed

declare build_variant_record.simps [simp del]

lemma well_formed_example: "well_formed plain example_variant example_position"
  by (simp add: well_formed_def plain_def example_variant_def example_position_def dict_get_def
      samples_ok_def sample_or_empty_def items_ok_def transcript_ok_def clinvar_ok_def field_def
      hashable_def int_ok_def float_ok_def succeeds_def as_list_def Let_def)

lemma normalize_genotype_unphased: "normalize_genotype g = unphased g"
  by (cases g) (simp_all add: normalize_genotype_def unphased_def replace_char_def)

lemma unphased_clean: "unphased g = PStr s \<Longrightarrow> CHR ''|'' \<notin> set s \<and> CHR ''.'' \<notin> set s"
  by (cases g) (auto simp: unphased_def)

text \<open>
  Claim C5. A position and a variant of the expected shape are normalised without error,
  and each of the three genotypes of the record (proband from sample 0, paternal from
  sample 1, maternal from sample 2) is the sample's genotype with every \<open>|\<close> replaced by
  \<open>/\<close> and every \<open>.\<close> by \<open>0\<close> when that is a string, and the value unchanged (\<open>None\<close> when
  absent) otherwise; a genotype of the record that is a string holds neither \<open>|\<close> nor \<open>.\<close>.
\<close>

theorem genotype_normalization:
  assumes "well_formed E variant pos"
  shows "\<exists>r. build_variant_record E (PDict variant) idx (PDict pos) = Inr r \<and>
     variant_record.genotype r = unphased (field (sample_of pos 0) ''genotype'' PNone) \<and>
     variant_record.paternal_genotype r = unphased (field (sample_of pos 1) ''genotype'' PNone) \<and>
     variant_record.maternal_genotype r = unphased (field (sample_of pos 2) ''genotype'' PNone) \<and>
     (\<forall>g\<in>{variant_record.genotype r, variant_record.paternal_genotype r,
            variant_record.maternal_genotype r}.
        \<forall>s. g = PStr s \<longrightarrow> CHR ''|'' \<notin> set s \<and> CHR ''.'' \<notin> set s)"
proof -
  from build_variant_record_well_formed [OF assms, of idx]
  obtain r where r: "build_variant_record E (PDict variant) idx (PDict pos) = Inr r"
    "variant_record.genotype r = unphased (field (sample_of pos 0) ''genotype'' PNone)"
    "variant_record.paternal_genotype r = unphased (field (sample_of pos 1) ''genotype'' PNone)"
    "variant_record.maternal_genotype r = unphased (field (sample_of pos 2) ''genotype'' PNone)"
    by (auto simp: normalize_genotype_unphased)
  have "\<forall>g\<in>{variant_record.genotype r, variant_record.paternal_genotype r,
            variant_record.maternal_genotype r}.
        \<forall>s. g = PStr s \<longrightarrow> CHR ''|'' \<notin> set s \<and> CHR ''.'' \<notin> set s"
    unfolding r(2,3,4) by (intro ballI allI impI) (auto dest: unphased_clean [OF sym])
  with r show ?thesis by blast
qed

text \<open>
  The theorem at the example: \<open>0|1\<close>, \<open>./.\<close> and \<open>.|1\<close> become \<open>0/1\<close>, \<open>0/0\<close> and \<open>0/1\<close>.
\<close>

theorem genotype_normalization_witness:
  "\<exists>r. build_variant_record plain (PDict example_variant) 0 (PDict example_position) = Inr r \<and>
     variant_record.genotype r = PStr ''0/1'' \<and>
     variant_record.paternal_genotype r = PStr ''0/0'' \<and>
     variant_record.maternal_genotype r = PStr ''0/1''"
proof -
  have "unphased (field (sample_of example_position 0) ''genotype'' PNone) = PStr ''0/1''"
    "unphased (field (sample_of example_position 1) ''genotype'' PNone) = PStr ''0/0''"
    "unphased (field (sample_of example_position 2) ''genotype'' PNone) = PStr ''0/1''"
    by (simp_all add: unphased_def field_def sample_of_def sample_or_empty_def example_position_def
        dict_get_def)
  with genotype_normalization [OF well_formed_example, of 0] show ?thesis by auto
qed

lemmas build_eval =
  build_variant_record.simps Let_def dict_get_def sample_at_def gnomad_lookup_def gnomad_default_def
  collect_transcripts_def collect_clinvar_def opt_int_def opt_float_def as_list_def
  normalize_genotype_def

text \<open>
  Claim C8 says that the value of the population-frequency field is used when the field is
  present. On a variant whose field is present with the value null, the record's \<open>gnomad_af\<close>
  is \<open>0.0\<close> and not that value.
\<close>

theorem gnomad_af_null_counterexample:
  "population_frequency null_af_variant = Some PNone \<and>
   map_sum id variant_record.gnomad_af
     (build_variant_record plain (PDict null_af_variant) 0 (PDict [])) = Inr (PFloat (Finite 0))"
  by (simp add: population_frequency_def null_af_variant_def build_eval)

lemma population_frequency_field:
  assumes "is_dict (dict_get variant ''gnomad'' (PDict []))"
  shows "gnomad_default (field (dict_get variant ''gnomad'' (PDict [])) ''allAf'' PNone) =
         (case population_frequency variant of
            None \<Rightarrow> PFloat (Finite 0)
          | Some PNone \<Rightarrow> PFloat (Finite 0)
          | Some x \<Rightarrow> x)"
proof (cases "map_of variant ''gnomad''")
  case None
  then show ?thesis
    by (simp add: population_frequency_def dict_get_def field_def gnomad_default_def)
next
  case (Some g)
  with assms obtain kvs where g: "g = PDict kvs"
    by (cases g) (simp_all add: dict_get_def)
  show ?thesis
  proof (cases "map_of kvs ''allAf''")
    case None
    with Some g show ?thesis
      by (simp add: population_frequency_def dict_get_def field_def gnomad_default_def)
  next
    case (Some x)
    with \<open>map_of variant ''gnomad'' = Some g\<close> g show ?thesis
      by (cases x) (simp_all add: population_frequency_def dict_get_def field_def gnomad_default_def)
  qed
qed

lemma gnomad_default_not_none: "gnomad_default x \<noteq> PNone"
  by (simp add: gnomad_default_def)

text \<open>
  Claim C8, amended. For input of the expected shape the record's \<open>gnomad_af\<close> is \<open>0.0\<close>
  when the field is absent or null, and the field's value otherwise; it is never null.
\<close>

theorem gnomad_af_default:
  assumes "well_formed E variant pos"
  shows "\<exists>r. build_variant_record E (PDict variant) idx (PDict pos) = Inr r \<and>
     variant_record.gnomad_af r =
       (case population_frequency variant of
          None \<Rightarrow> PFloat (Finite 0)
        | Some PNone \<Rightarrow> PFloat (Finite 0)
        | Some x \<Rightarrow> x) \<and>
     variant_record.gnomad_af r \<noteq> PNone"
proof -
  from assms have d: "is_dict (dict_get variant ''gnomad'' (PDict []))"
    by (simp add: well_formed_def Let_def)
  from build_variant_record_well_formed [OF assms, of idx]
  obtain r where r: "build_variant_record E (PDict variant) idx (PDict pos) = Inr r"
    "variant_record.gnomad_af r =
       gnomad_default (field (dict_get variant ''gnomad'' (PDict [])) ''allAf'' PNone)"
    by auto
  from r(2) have "variant_record.gnomad_af r \<noteq> PNone"
    by (simp add: gnomad_default_not_none)
  with r population_frequency_field [OF d] show ?thesis by auto
qed

text \<open>
  The theorem at the example, whose field holds 0.0001.
\<close>

theorem gnomad_af_default_witness:
  "\<exists>r. build_variant_record plain (PDict example_variant) 0 (PDict example_position) = Inr r \<and>
     variant_record.gnomad_af r = PDecimal (1 / 10000)"
proof -
  have "population_frequency example_variant = Some (PDecimal (1 / 10000))"
    by (simp add: population_frequency_def example_variant_def)
  with gnomad_af_default [OF well_formed_example, of 0] show ?thesis by auto
qed

text \<open>
  Claim C9 says that the allele depths of the record are the numeric entries coerced to
  integers, and that no entry raises. Of the two numeric entries \<open>[10, 2.5]\<close>, the second a
  decimal number as the decoder delivers it, the record keeps \<open>[10]\<close>; on \<open>[10, inf]\<close> the
  normaliser raises \<^verbatim>\<open>OverflowError\<close>.
\<close>

theorem allele_depths_counterexample:
  "list_all json_number [PInt 10, PDecimal (5 / 2)] \<and>
   map_sum id variant_record.allele_depths
     (build_variant_record plain (PDict []) 0 (PDict decimal_depths_position)) = Inr [10] \<and>
   list_all json_number [PInt 10, PFloat PosInf] \<and>
   build_variant_record plain (PDict []) 0 (PDict infinite_depths_position) = Inl OverflowError"
  by (simp add: decimal_depths_position_def infinite_depths_position_def build_eval)

text \<open>
  Claim C9, amended. For input of the expected shape, which excludes a non-finite float
  among the allele depths, the record's allele depths are, in order, what \<open>int_entry\<close> keeps
  of each entry: an \<^verbatim>\<open>int\<close> as it is, a \<^verbatim>\<open>bool\<close> as 0 or 1, a finite \<^verbatim>\<open>float\<close> truncated, and
  nothing of any other entry, a \<^verbatim>\<open>Decimal\<close> included; they are empty when the field is not
  a list.
\<close>

theorem allele_depths_int_entries:
  assumes "well_formed E variant pos"
  shows "\<exists>r. build_variant_record E (PDict variant) idx (PDict pos) = Inr r \<and>
     variant_record.allele_depths r =
       List.map_filter int_entry (as_list (field (sample_of pos 0) ''alleleDepths'' (PList []))) \<and>
     ((\<forall>xs. field (sample_of pos 0) ''alleleDepths'' (PList []) \<noteq> PList xs) \<longrightarrow>
        variant_record.allele_depths r = [])"
proof -
  from build_variant_record_well_formed [OF assms, of idx]
  obtain r where r: "build_variant_record E (PDict variant) idx (PDict pos) = Inr r"
    "variant_record.allele_depths r =
       List.map_filter int_entry (as_list (field (sample_of pos 0) ''alleleDepths'' (PList [])))"
    by auto
  have "(\<forall>xs. field (sample_of pos 0) ''alleleDepths'' (PList []) \<noteq> PList xs) \<longrightarrow>
        as_list (field (sample_of pos 0) ''alleleDepths'' (PList [])) = []"
    by (cases "field (sample_of pos 0) ''alleleDepths'' (PList [])") (simp_all add: as_list_def)
  with r show ?thesis by (auto simp: List.map_filter_simps)
qed

text \<open>
  The theorem at the example: of \<open>[10, True, "x", 2.5]\<close> the record keeps \<open>[10, 1]\<close>.
\<close>

theorem allele_depths_int_entries_witness:
  "\<exists>r. build_variant_record plain (PDict example_variant) 0 (PDict example_position) = Inr r \<and>
     variant_record.allele_depths r = [10, 1]"
proof -
  have "List.map_filter int_entry
          (as_list (field (sample_of example_position 0) ''alleleDepths'' (PList []))) = [10, 1]"
    by (simp add: List.map_filter_simps as_list_def field_def sample_of_def sample_or_empty_def
        example_position_def dict_get_def)
  with allele_depths_int_entries [OF well_formed_example, of 0] show ?thesis by auto
qed

lemma ebind_eq_Inr: "ebind m f = Inr y \<longleftrightarrow> (\<exists>x. m = Inr x \<and> f x = Inr y)"
  by (cases m) simp_all

lemma py_key_none: "py_key x = Some KNone \<longleftrightarrow> x = PNone"
  by (cases x rule: py_key.cases) auto

lemma set_add_sets:
  assumes "set_add s x = Inr s'"
  shows "set s \<subseteq> set s'" "set s' \<subseteq> insert x (set s)" "py_key x \<in> py_key ` set s'"
  using assms by (auto simp: set_add_def split: option.splits if_splits)

lemma transcript_step_canonical:
  assumes "transcript_step E (g, c, q) t = Inr (g', c', q')"
  shows "set c \<subseteq> set c'"
    "set c' \<subseteq> set c \<union> (if canonical t then {field t ''transcript'' PNone} else {})"
    "canonical t \<longrightarrow> py_key (field t ''transcript'' PNone) \<in> py_key ` set c'"
proof -
  from assms obtain kvs where t: "t = PDict kvs"
    by (cases t) (simp_all add: transcript_step_def)
  show "set c \<subseteq> set c'"
    "set c' \<subseteq> set c \<union> (if canonical t then {field t ''transcript'' PNone} else {})"
    "canonical t \<longrightarrow> py_key (field t ''transcript'' PNone) \<in> py_key ` set c'"
    using assms set_add_sets [of c "dict_get kvs ''transcript'' PNone"]
    by (auto simp: transcript_step_def t canonical_def field_def Let_def ebind_eq_Inr
        split: if_splits)
qed

lemma foldE_transcript_canonical:
  assumes "foldE (transcript_step E) ts (g, c, q) = Inr (g', c', q')"
  shows "set c \<subseteq> set c' \<and>
         set c' \<subseteq> set c \<union> {field t ''transcript'' PNone |t. t \<in> set ts \<and> canonical t} \<and>
         (\<forall>t\<in>set ts. canonical t \<longrightarrow> py_key (field t ''transcript'' PNone) \<in> py_key ` set c')"
  using assms
proof (induction ts arbitrary: g c q)
  case Nil
  then show ?case by simp
next
  case (Cons t ts)
  from Cons.prems obtain g1 c1 q1 where
    step: "transcript_step E (g, c, q) t = Inr (g1, c1, q1)" and
    rest: "foldE (transcript_step E) ts (g1, c1, q1) = Inr (g', c', q')"
    by (auto simp: ebind_eq_Inr)
  note s = transcript_step_canonical [OF step]
  note r = Cons.IH [OF rest]
  have a: "set c \<subseteq> set c'" using s(1) r by blast
  have b: "set c' \<subseteq> set c \<union> {field u ''transcript'' PNone |u. u \<in> set (t # ts) \<and> canonical u}"
  proof
    fix x assume "x \<in> set c'"
    with r have "x \<in> set c1 \<or> (\<exists>u. x = field u ''transcript'' PNone \<and> u \<in> set ts \<and> canonical u)"
      by blast
    then show "x \<in> set c \<union> {field u ''transcript'' PNone |u. u \<in> set (t # ts) \<and> canonical u}"
    proof
      assume "x \<in> set c1"
      with s(2) have "x \<in> set c \<or> (canonical t \<and> x = field t ''transcript'' PNone)"
        by (auto split: if_splits)
      then show ?thesis by auto
    next
      assume "\<exists>u. x = field u ''transcript'' PNone \<and> u \<in> set ts \<and> canonical u"
      then show ?thesis by auto
    qed
  qed
  have c: "\<forall>u\<in>set (t # ts). canonical u \<longrightarrow> py_key (field u ''transcript'' PNone) \<in> py_key ` set c'"
  proof (intro ballI impI)
    fix u assume u: "u \<in> set (t # ts)" "canonical u"
    show "py_key (field u ''transcript'' PNone) \<in> py_key ` set c'"
    proof (cases "u = t")
      case True
      with u s(3) have "py_key (field u ''transcript'' PNone) \<in> py_key ` set c1" by simp
      moreover from r have "set c1 \<subseteq> set c'" by blast
      ultimately show ?thesis by blast
    next
      case False
      with u r show ?thesis by auto
    qed
  qed
  from a b c show ?case by blast
qed

lemma py_iter_transcripts:
  assumes "items_ok transcript_ok v"
  shows "py_iter v = Inr (as_list v)"
proof (cases v)
  case (PStr s)
  with assms show ?thesis
    by (cases s) (simp_all add: items_ok_def as_list_def transcript_ok_def)
next
  case (PDict kvs)
  with assms show ?thesis
    by (cases kvs) (simp_all add: items_ok_def as_list_def transcript_ok_def)
qed (use assms in \<open>simp_all add: items_ok_def as_list_def\<close>)

text \<open>
  Claim C10. Input of the expected shape is normalised without error, and the shape asks
  nothing of the transcript identifier of a transcript but that it can be hashed when it
  is there. If a transcript with a truthy canonical flag lacks the identifier, \<open>None\<close> is
  among the canonical transcripts of the record; and every canonical transcript of the
  record is the identifier (or \<open>None\<close>) of a transcript whose canonical flag is truthy.
\<close>

theorem canonical_transcripts_null:
  assumes "well_formed E variant pos"
  shows "\<exists>r. build_variant_record E (PDict variant) idx (PDict pos) = Inr r \<and>
     ((\<exists>t\<in>set (transcripts_of variant). canonical t \<and> lacks t ''transcript'') \<longrightarrow>
        PNone \<in> set (variant_record.canonical_transcripts r)) \<and>
     (\<forall>x\<in>set (variant_record.canonical_transcripts r).
        \<exists>t\<in>set (transcripts_of variant). canonical t \<and> field t ''transcript'' PNone = x)"
proof -
  let ?tv = "dict_get variant ''transcripts'' (PList [])"
  from build_variant_record_well_formed [OF assms, of idx]
  obtain r sets where r: "build_variant_record E (PDict variant) idx (PDict pos) = Inr r"
    "collect_transcripts E ?tv = Inr sets"
    "variant_record.canonical_transcripts r = fst (snd sets)"
    by auto
  from assms have "items_ok transcript_ok ?tv"
    by (simp add: well_formed_def Let_def)
  then have it: "py_iter ?tv = Inr (transcripts_of variant)"
    by (simp add: py_iter_transcripts transcripts_of_def)
  obtain g c q where sets: "sets = (g, c, q)" by (cases sets) auto
  from r(2) it sets have "foldE (transcript_step E) (transcripts_of variant) ([], [], []) = Inr (g, c, q)"
    by (simp add: collect_transcripts_def)
  from foldE_transcript_canonical [OF this]
  have sub: "set c \<subseteq> {field t ''transcript'' PNone |t. t \<in> set (transcripts_of variant) \<and> canonical t}"
    and keys: "\<forall>t\<in>set (transcripts_of variant). canonical t \<longrightarrow>
                 py_key (field t ''transcript'' PNone) \<in> py_key ` set c"
    by auto
  have c: "variant_record.canonical_transcripts r = c" using r(3) sets by simp
  have "(\<exists>t\<in>set (transcripts_of variant). canonical t \<and> lacks t ''transcript'') \<longrightarrow> PNone \<in> set c"
  proof
    assume "\<exists>t\<in>set (transcripts_of variant). canonical t \<and> lacks t ''transcript''"
    then obtain t where t: "t \<in> set (transcripts_of variant)" "canonical t" "lacks t ''transcript''"
      by blast
    from t(3) have "field t ''transcript'' PNone = PNone"
      by (cases t) (simp_all add: lacks_def field_def dict_get_def)
    with keys t have "py_key PNone \<in> py_key ` set c" by metis
    then obtain x where "x \<in> set c" "py_key x = Some KNone" by auto
    then show "PNone \<in> set c" by (simp add: py_key_none)
  qed
  moreover have "\<forall>x\<in>set c. \<exists>t\<in>set (transcripts_of variant). canonical t \<and> field t ''transcript'' PNone = x"
    using sub by blast
  ultimately show ?thesis using r(1) c by blast
qed

text \<open>
  The theorem at the example: \<open>None\<close> is among the canonical transcripts, the identifier of
  the transcript that is not canonical is not.
\<close>

theorem canonical_transcripts_null_witness:
  "\<exists>r. build_variant_record plain (PDict example_variant) 0 (PDict example_position) = Inr r \<and>
     PNone \<in> set (variant_record.canonical_transcripts r) \<and>
     PStr ''NM_007297.4'' \<notin> set (variant_record.canonical_transcripts r)"
proof -
  have a: "\<exists>t\<in>set (transcripts_of example_variant). canonical t \<and> lacks t ''transcript''"
    by (simp add: transcripts_of_def example_variant_def dict_get_def as_list_def canonical_def
        lacks_def field_def)
  have b: "\<not> (\<exists>t\<in>set (transcripts_of example_variant).
               canonical t \<and> field t ''transcript'' PNone = PStr ''NM_007297.4'')"
    by (simp add: transcripts_of_def example_variant_def dict_get_def as_list_def canonical_def
        field_def)
  from canonical_transcripts_null [OF well_formed_example, of 0] a b show ?thesis by blast
qed

section \<open>Properties of the ingestion run\<close>

lemma in_txn_set_current:
  "in_txn conn \<Longrightarrow> variants db \<noteq> None \<Longrightarrow>
     in_txn (set_current conn db) \<and> committed (set_current conn db) = committed conn"
  by (auto simp: in_txn_def set_current_def current_def split: option.splits)

lemma insert_variant_Inr:
  assumes "insert_variant E db r = Inr db'"
  shows "\<exists>row rows. db_bind E r = Inr row \<and> variants db = Some rows \<and>
           pkey row \<notin> pkey ` set rows \<and> db' = db \<lparr> variants := Some (rows @ [row]) \<rparr>"
  using assms
  by (auto simp: insert_variant_def ebind_eq_Inr split: option.splits if_splits)

lemma batch_insert_Inr:
  assumes "batch_insert E conn rs = Inr conn'" and "in_txn conn"
    and "variants (current conn) = Some rows"
  shows "\<exists>new. current conn' = (current conn) \<lparr> variants := Some (rows @ new) \<rparr> \<and>
           list_all2 (\<lambda>r row. db_bind E r = Inr row) rs new \<and>
           in_txn conn' \<and> committed conn' = committed conn"
  using assms
proof (induction rs arbitrary: conn rows)
  case Nil
  then show ?case by simp
next
  case (Cons r rs)
  from Cons.prems(1) obtain db where
    ins: "insert_variant E (current conn) r = Inr db" and
    rest: "batch_insert E (set_current conn db) rs = Inr conn'"
    by (auto split: sum.splits)
  from insert_variant_Inr [OF ins] Cons.prems(3) obtain row where
    row: "db_bind E r = Inr row" "db = (current conn) \<lparr> variants := Some (rows @ [row]) \<rparr>"
    by auto
  have v: "variants db \<noteq> None" using row(2) by simp
  note sc = in_txn_set_current [OF Cons.prems(2) v]
  have cur: "variants (current (set_current conn db)) = Some (rows @ [row])"
    using row(2) by simp
  from Cons.IH [OF rest conjunct1 [OF sc] cur] obtain new where
    new: "current conn' = (current (set_current conn db)) \<lparr> variants := Some ((rows @ [row]) @ new) \<rparr>"
      "list_all2 (\<lambda>r row. db_bind E r = Inr row) rs new"
      "in_txn conn'" "committed conn' = committed (set_current conn db)"
    by blast
  have "current conn' = (current conn) \<lparr> variants := Some (rows @ (row # new)) \<rparr>"
    using new(1) row(2) by simp
  moreover have "list_all2 (\<lambda>r row. db_bind E r = Inr row) (r # rs) (row # new)"
    using row(1) new(2) by simp
  ultimately show ?case using new(3,4) sc by metis
qed

lemma batch_insert_Inl:
  assumes "batch_insert E conn rs = Inl (e, conn')" and "in_txn conn"
  shows "in_txn conn' \<and> committed conn' = committed conn"
  using assms
proof (induction rs arbitrary: conn)
  case Nil
  then show ?case by simp
next
  case (Cons r rs)
  show ?case
  proof (cases "insert_variant E (current conn) r")
    case (Inl e')
    with Cons.prems show ?thesis by simp
  next
    case (Inr db)
    with Cons.prems have rest: "batch_insert E (set_current conn db) rs = Inl (e, conn')"
      by simp
    from insert_variant_Inr [OF Inr] have "variants db \<noteq> None" by auto
    note sc = in_txn_set_current [OF Cons.prems(2) this]
    from Cons.IH [OF rest conjunct1 [OF sc]] sc show ?thesis by simp
  qed
qed

lemma batch_insert_collision:
  assumes "db_bind E r = Inr row" and "variants (current conn) = Some rows"
    and "pkey row \<in> pkey ` set rows"
  shows "batch_insert E conn (r # rs) = Inl (ConstraintError, conn)"
  using assms by (simp add: insert_variant_def)

lemma first_seen_append:
  "first_seen K (es1 @ es2) = first_seen K es1 @ first_seen (K \<union> vid_key ` set es1) es2"
proof (induction es1 arbitrary: K)
  case Nil
  then show ?case by simp
next
  case (Cons e es1)
  show ?case
  proof (cases "vid_key e \<in> K")
    case True
    then have "K \<union> vid_key ` set (e # es1) = K \<union> vid_key ` set es1" by auto
    with True Cons show ?thesis by simp
  next
    case False
    have "K \<union> vid_key ` set (e # es1) = insert (vid_key e) K \<union> vid_key ` set es1" by auto
    with False Cons show ?thesis by simp
  qed
qed

lemma variant_step_list:
  assumes "variant_step E pos (PList xs) (seen, acc) i = Inr (seen', acc')" and "i < length xs"
  shows "\<exists>new. acc' = acc @ new \<and>
           list_all2 (built E) (first_seen (set (map py_key seen)) [(xs ! i, i, pos)]) new \<and>
           set (map py_key seen') = set (map py_key seen) \<union> {vid_key (xs ! i, i, pos)}"
proof -
  from assms obtain key k where
    get: "py_get (xs ! i) ''vid'' PNone = Inr key" and k: "py_key key = Some k"
    by (auto simp: variant_step_def ebind_eq_Inr split: option.splits)
  from get have key: "key = field (xs ! i) ''vid'' PNone"
    by (cases "xs ! i") (simp_all add: field_def)
  then have vk: "vid_key (xs ! i, i, pos) = Some k"
    using k by (simp add: vid_key_def)
  show ?thesis
  proof (cases "Some k \<in> set (map py_key seen)")
    case True
    with assms get k have "seen' = seen" "acc' = acc"
      by (auto simp: variant_step_def)
    with True vk show ?thesis by auto
  next
    case False
    with assms get k obtain r where
      r: "build_variant_record E (xs ! i) i pos = Inr r" "seen' = seen @ [key]" "acc' = acc @ [r]"
      by (auto simp: variant_step_def ebind_eq_Inr)
    from False vk r k show ?thesis by (auto simp: built_def)
  qed
qed

lemma foldE_variant_step:
  assumes "foldE (variant_step E pos (PList xs)) idxs (seen, acc) = Inr (seen', acc')"
    and "\<forall>i\<in>set idxs. i < length xs"
  shows "\<exists>new. acc' = acc @ new \<and>
           list_all2 (built E)
             (first_seen (set (map py_key seen)) (map (\<lambda>i. (xs ! i, i, pos)) idxs)) new \<and>
           set (map py_key seen') =
             set (map py_key seen) \<union> vid_key ` set (map (\<lambda>i. (xs ! i, i, pos)) idxs)"
  using assms
proof (induction idxs arbitrary: seen acc)
  case Nil
  then show ?case by simp
next
  case (Cons i idxs)
  let ?e = "(xs ! i, i, pos)"
  let ?es = "map (\<lambda>i. (xs ! i, i, pos)) idxs"
  from Cons.prems(1) obtain seen1 acc1 where
    step: "variant_step E pos (PList xs) (seen, acc) i = Inr (seen1, acc1)" and
    rest: "foldE (variant_step E pos (PList xs)) idxs (seen1, acc1) = Inr (seen', acc')"
    by (auto simp: ebind_eq_Inr)
  from Cons.prems(2) have i: "i < length xs" and rest_idx: "\<forall>i\<in>set idxs. i < length xs" by auto
  from variant_step_list [OF step i] obtain new1 where
    n1: "acc1 = acc @ new1" "list_all2 (built E) (first_seen (set (map py_key seen)) [?e]) new1"
      "set (map py_key seen1) = set (map py_key seen) \<union> {vid_key ?e}"
    by blast
  from Cons.IH [OF rest rest_idx] obtain new2 where
    n2: "acc' = acc1 @ new2" "list_all2 (built E) (first_seen (set (map py_key seen1)) ?es) new2"
      "set (map py_key seen') = set (map py_key seen1) \<union> vid_key ` set ?es"
    by blast
  have "first_seen (set (map py_key seen)) (?e # ?es) =
          first_seen (set (map py_key seen)) [?e] @ first_seen (set (map py_key seen1)) ?es"
    using first_seen_append [of "set (map py_key seen)" "[?e]" ?es] n1(3) by simp
  then have "list_all2 (built E) (first_seen (set (map py_key seen)) (map (\<lambda>i. (xs ! i, i, pos)) (i # idxs)))
               (new1 @ new2)"
    using n1(2) n2(2) by (simp add: list_all2_appendI)
  moreover have "acc' = acc @ (new1 @ new2)" using n1(1) n2(1) by simp
  moreover have "set (map py_key seen') =
      set (map py_key seen) \<union> vid_key ` set (map (\<lambda>i. (xs ! i, i, pos)) (i # idxs))"
    using n1(3) n2(3) by auto
  ultimately show ?case by blast
qed

lemma variants_loop_first_seen:
  assumes "variants_loop E (seen, acc) pos = Inr (seen', acc')"
  shows "\<exists>new. acc' = acc @ new \<and>
           list_all2 (built E) (first_seen (set (map py_key seen)) (entries_of pos)) new \<and>
           set (map py_key seen') = set (map py_key seen) \<union> vid_key ` set (entries_of pos)"
proof -
  from assms obtain vs n where
    vs: "py_get pos ''variants'' (PList []) = Inr vs" and n: "py_len vs = Inr n" and
    loop: "foldE (variant_step E pos vs) [0..<n] (seen, acc) = Inr (seen', acc')"
    by (auto simp: variants_loop_def ebind_eq_Inr)
  from vs have f: "vs = field pos ''variants'' (PList [])"
    by (cases pos) (simp_all add: field_def)
  show ?thesis
  proof (cases vs)
    case (PList xs)
    with n have "n = length xs" by simp
    with loop PList foldE_variant_step [of E pos xs "[0..<length xs]" seen acc seen' acc']
    show ?thesis by (simp add: entries_of_def f [symmetric] as_list_def Let_def)
  next
    case (PStr str)
    with n have len: "n = length str" by simp
    have "str = []"
    proof (rule ccontr)
      assume "str \<noteq> []"
      then have "[0..<n] = 0 # [1..<n]" using len by (simp add: upt_conv_Cons)
      with loop PStr \<open>str \<noteq> []\<close> show False
        by (simp add: variant_step_def)
    qed
    with loop len PStr show ?thesis
      by (simp add: entries_of_def f [symmetric] as_list_def)
  next
    case (PDict kvs)
    with n have len: "n = length kvs" by simp
    have "kvs = []"
    proof (rule ccontr)
      assume "kvs \<noteq> []"
      then have "[0..<n] = 0 # [1..<n]" using len by (simp add: upt_conv_Cons)
      with loop PDict show False
        by (simp add: variant_step_def)
    qed
    with loop len PDict show ?thesis
      by (simp add: entries_of_def f [symmetric] as_list_def)
  qed (use n in simp_all)
qed

lemma variants_update_same: "variants db = Some rows \<Longrightarrow> db \<lparr> variants := Some rows \<rparr> = db"
  by (cases db) simp

lemma position_step_Inr:
  assumes "position_step E bs (seen, batch, tot, conn) pos = Inr (seen', batch', tot', conn')"
    and "in_txn conn" and "variants (current conn) = Some rows"
  shows "\<exists>new flushed newrows.
           list_all2 (built E) (first_seen (set (map py_key seen)) (entries_of pos)) new \<and>
           batch @ new = flushed @ batch' \<and>
           list_all2 (\<lambda>r row. db_bind E r = Inr row) flushed newrows \<and>
           current conn' = (current conn) \<lparr> variants := Some (rows @ newrows) \<rparr> \<and>
           tot' = tot + length flushed \<and> in_txn conn' \<and> committed conn' = committed conn \<and>
           set (map py_key seen') = set (map py_key seen) \<union> vid_key ` set (entries_of pos)"
proof -
  from assms(1) obtain seen1 batch1 where
    loop: "variants_loop E (seen, batch) pos = Inr (seen1, batch1)"
    by (auto simp: position_step_def split: sum.splits)
  from variants_loop_first_seen [OF loop] obtain new where
    new: "batch1 = batch @ new"
      "list_all2 (built E) (first_seen (set (map py_key seen)) (entries_of pos)) new"
      "set (map py_key seen1) = set (map py_key seen) \<union> vid_key ` set (entries_of pos)"
    by blast
  show ?thesis
  proof (cases "bs \<le> length batch1")
    case True
    with assms(1) loop obtain conn1 where
      ins: "batch_insert E conn batch1 = Inr conn1" and
      st: "seen' = seen1" "batch' = []" "tot' = tot + length batch1" "conn' = conn1"
      by (auto simp: position_step_def ebind_eq_Inr)
    from batch_insert_Inr [OF ins assms(2,3)] obtain newrows where
      "current conn1 = (current conn) \<lparr> variants := Some (rows @ newrows) \<rparr>"
      "list_all2 (\<lambda>r row. db_bind E r = Inr row) batch1 newrows"
      "in_txn conn1" "committed conn1 = committed conn"
      by blast
    with new st show ?thesis by auto
  next
    case False
    with assms(1) loop have
      st: "seen' = seen1" "batch' = batch1" "tot' = tot" "conn' = conn"
      by (auto simp: position_step_def)
    have upd: "current conn = (current conn) \<lparr> variants := Some (rows @ []) \<rparr>"
      using assms(3) by (simp add: variants_update_same)
    from new st assms(2) upd show ?thesis
      by - (rule exI [of _ new], rule exI [of _ "[]"], rule exI [of _ "[]"], simp)
  qed
qed

lemma position_step_Inl:
  assumes "position_step E bs (seen, batch, tot, conn) pos = Inl (e, conn')" and "in_txn conn"
  shows "in_txn conn' \<and> committed conn' = committed conn"
proof (cases "variants_loop E (seen, batch) pos")
  case (Inl e')
  with assms show ?thesis by (simp add: position_step_def)
next
  case (Inr sb)
  obtain seen1 batch1 where sb: "sb = (seen1, batch1)" by (cases sb) auto
  show ?thesis
  proof (cases "bs \<le> length batch1")
    case True
    with assms Inr sb have "batch_insert E conn batch1 = Inl (e, conn')"
      by (cases "batch_insert E conn batch1") (simp_all add: position_step_def)
    from batch_insert_Inl [OF this assms(2)] show ?thesis .
  next
    case False
    with assms Inr sb show ?thesis by (simp add: position_step_def)
  qed
qed

lemma foldE_position_step_Inr:
  assumes "foldE (position_step E bs) ps (seen, batch, tot, conn) = Inr (seen', batch', tot', conn')"
    and "in_txn conn" and "variants (current conn) = Some rows"
  shows "\<exists>recs flushed newrows.
           list_all2 (built E) (first_seen (set (map py_key seen)) (all_entries ps)) recs \<and>
           batch @ recs = flushed @ batch' \<and>
           list_all2 (\<lambda>r row. db_bind E r = Inr row) flushed newrows \<and>
           current conn' = (current conn) \<lparr> variants := Some (rows @ newrows) \<rparr> \<and>
           tot' = tot + length flushed \<and> in_txn conn' \<and> committed conn' = committed conn"
  using assms
proof (induction ps arbitrary: seen batch tot conn rows)
  case Nil
  then have "current conn' = (current conn') \<lparr> variants := Some (rows @ []) \<rparr>"
    by (simp add: variants_update_same)
  with Nil show ?case
    by (auto simp: all_entries_def intro!: exI [of _ "[]"])
next
  case (Cons p ps)
  from Cons.prems(1) obtain seen1 batch1 tot1 conn1 where
    step: "position_step E bs (seen, batch, tot, conn) p = Inr (seen1, batch1, tot1, conn1)" and
    rest: "foldE (position_step E bs) ps (seen1, batch1, tot1, conn1) = Inr (seen', batch', tot', conn')"
    by (auto simp: ebind_eq_Inr)
  from position_step_Inr [OF step Cons.prems(2,3)] obtain new1 flushed1 rows1 where
    s1: "list_all2 (built E) (first_seen (set (map py_key seen)) (entries_of p)) new1"
      "batch @ new1 = flushed1 @ batch1"
      "list_all2 (\<lambda>r row. db_bind E r = Inr row) flushed1 rows1"
      "current conn1 = (current conn) \<lparr> variants := Some (rows @ rows1) \<rparr>"
      "tot1 = tot + length flushed1" "in_txn conn1" "committed conn1 = committed conn"
      "set (map py_key seen1) = set (map py_key seen) \<union> vid_key ` set (entries_of p)"
    by blast
  from s1(4) have v1: "variants (current conn1) = Some (rows @ rows1)" by simp
  from Cons.IH [OF rest s1(6) v1] obtain recs2 flushed2 rows2 where
    s2: "list_all2 (built E) (first_seen (set (map py_key seen1)) (all_entries ps)) recs2"
      "batch1 @ recs2 = flushed2 @ batch'"
      "list_all2 (\<lambda>r row. db_bind E r = Inr row) flushed2 rows2"
      "current conn' = (current conn1) \<lparr> variants := Some ((rows @ rows1) @ rows2) \<rparr>"
      "tot' = tot1 + length flushed2" "in_txn conn'" "committed conn' = committed conn1"
    by blast
  have "first_seen (set (map py_key seen)) (all_entries (p # ps)) =
          first_seen (set (map py_key seen)) (entries_of p) @
          first_seen (set (map py_key seen1)) (all_entries ps)"
    using first_seen_append [of "set (map py_key seen)" "entries_of p" "all_entries ps"] s1(8)
    by (simp add: all_entries_def)
  then have a: "list_all2 (built E) (first_seen (set (map py_key seen)) (all_entries (p # ps)))
                  (new1 @ recs2)"
    using s1(1) s2(1) by (simp add: list_all2_appendI)
  have b: "batch @ (new1 @ recs2) = (flushed1 @ flushed2) @ batch'"
    using s1(2) s2(2) by (metis append.assoc)
  have c: "list_all2 (\<lambda>r row. db_bind E r = Inr row) (flushed1 @ flushed2) (rows1 @ rows2)"
    using s1(3) s2(3) by (simp add: list_all2_appendI)
  have d: "current conn' = (current conn) \<lparr> variants := Some (rows @ (rows1 @ rows2)) \<rparr>"
    using s1(4) s2(4) by simp
  have e: "tot' = tot + length (flushed1 @ flushed2)" using s1(5) s2(5) by simp
  from a b c d e s2(6,7) s1(7) show ?case by metis
qed

lemma foldE_position_step_Inl:
  assumes "foldE (position_step E bs) ps (seen, batch, tot, conn) = Inl (e, conn')"
    and "in_txn conn"
  shows "in_txn conn' \<and> committed conn' = committed conn"
  using assms
proof (induction ps arbitrary: seen batch tot conn)
  case Nil
  then show ?case by simp
next
  case (Cons p ps)
  show ?case
  proof (cases "position_step E bs (seen, batch, tot, conn) p")
    case (Inl ec)
    with Cons.prems have "position_step E bs (seen, batch, tot, conn) p = Inl (e, conn')" by simp
    from position_step_Inl [OF this Cons.prems(2)] show ?thesis .
  next
    case (Inr st)
    obtain seen1 batch1 tot1 conn1 where st: "st = (seen1, batch1, tot1, conn1)"
      by (cases st) auto
    from Cons.prems(2) obtain rows where rows: "variants (current conn) = Some rows"
      by (auto simp: in_txn_def)
    from position_step_Inr [OF Inr [unfolded st] Cons.prems(2) rows]
    have i1: "in_txn conn1" "committed conn1 = committed conn" by auto
    from Cons.prems(1) Inr st have
      "foldE (position_step E bs) ps (seen1, batch1, tot1, conn1) = Inl (e, conn')" by simp
    from Cons.IH [OF this i1(1)] i1(2) show ?thesis by simp
  qed
qed

lemma current_execute_commit:
  "committed (execute_commit conn) = current conn \<and> txn (execute_commit conn) = None"
  by (simp add: execute_commit_def)

lemma final_flush_Inr:
  assumes "final_flush E (seen, batch, tot, conn) = Inr (cnt, conn')"
    and "in_txn conn" and "variants (current conn) = Some rows"
  shows "\<exists>newrows. list_all2 (\<lambda>r row. db_bind E r = Inr row) batch newrows \<and>
           committed conn' = (current conn) \<lparr> variants := Some (rows @ newrows) \<rparr> \<and>
           txn conn' = None \<and> cnt = tot + length batch"
proof (cases "batch = []")
  case True
  with assms have "conn' = execute_commit conn" "cnt = tot"
    by (simp_all add: final_flush_def)
  with True assms(3) show ?thesis
    by (simp add: current_execute_commit variants_update_same)
next
  case False
  with assms(1) obtain conn1 where
    ins: "batch_insert E conn batch = Inr conn1" and
    r: "conn' = execute_commit conn1" "cnt = tot + length batch"
    by (auto simp: final_flush_def ebind_eq_Inr)
  from batch_insert_Inr [OF ins assms(2,3)] r show ?thesis
    by (auto simp: current_execute_commit)
qed

lemma final_flush_Inl:
  assumes "final_flush E (seen, batch, tot, conn) = Inl (e, conn')" and "in_txn conn"
  shows "committed conn' = committed conn"
proof (cases "batch = []")
  case True
  with assms show ?thesis by (simp add: final_flush_def)
next
  case False
  with assms(1) have "batch_insert E conn batch = Inl (e, conn')"
    by (cases "batch_insert E conn batch") (simp_all add: final_flush_def)
  from batch_insert_Inl [OF this assms(2)] show ?thesis by simp
qed

lemma rest_of_run_Inr:
  assumes "ebind (foldE (position_step E bs) ps (seen, batch, tot, conn)) (final_flush E)
             = Inr (cnt, conn')"
    and "in_txn conn" and "variants (current conn) = Some rows"
  shows "\<exists>recs newrows.
           list_all2 (built E) (first_seen (set (map py_key seen)) (all_entries ps)) recs \<and>
           list_all2 (\<lambda>r row. db_bind E r = Inr row) (batch @ recs) newrows \<and>
           committed conn' = (current conn) \<lparr> variants := Some (rows @ newrows) \<rparr> \<and>
           txn conn' = None \<and> cnt = tot + length newrows"
proof -
  from assms(1) obtain seen1 batch1 tot1 conn1 where
    loop: "foldE (position_step E bs) ps (seen, batch, tot, conn) = Inr (seen1, batch1, tot1, conn1)"
    and fin: "final_flush E (seen1, batch1, tot1, conn1) = Inr (cnt, conn')"
    by (auto simp: ebind_eq_Inr)
  from foldE_position_step_Inr [OF loop assms(2,3)] obtain recs flushed rows1 where
    l: "list_all2 (built E) (first_seen (set (map py_key seen)) (all_entries ps)) recs"
      "batch @ recs = flushed @ batch1"
      "list_all2 (\<lambda>r row. db_bind E r = Inr row) flushed rows1"
      "current conn1 = (current conn) \<lparr> variants := Some (rows @ rows1) \<rparr>"
      "tot1 = tot + length flushed" "in_txn conn1"
    by blast
  from l(4) have v1: "variants (current conn1) = Some (rows @ rows1)" by simp
  from final_flush_Inr [OF fin l(6) v1] obtain rows2 where
    f: "list_all2 (\<lambda>r row. db_bind E r = Inr row) batch1 rows2"
      "committed conn' = (current conn1) \<lparr> variants := Some ((rows @ rows1) @ rows2) \<rparr>"
      "txn conn' = None" "cnt = tot1 + length batch1"
    by blast
  have a: "list_all2 (\<lambda>r row. db_bind E r = Inr row) (batch @ recs) (rows1 @ rows2)"
    using l(2,3) f(1) by (simp add: list_all2_appendI)
  have b: "committed conn' = (current conn) \<lparr> variants := Some (rows @ (rows1 @ rows2)) \<rparr>"
    using f(2) l(4) by simp
  have c: "cnt = tot + length (rows1 @ rows2)"
    using f(4) l(5) l(3) f(1) by (simp add: list_all2_lengthD [symmetric])
  from l(1) a b c f(3) show ?thesis by blast
qed

lemma rest_of_run_Inl:
  assumes "ebind (foldE (position_step E bs) ps (seen, batch, tot, conn))
             (\<lambda>st. case err of Some e \<Rightarrow> Inl (e, snd (snd (snd st))) | None \<Rightarrow> final_flush E st)
             = Inl (e, conn')"
    and "in_txn conn"
  shows "committed conn' = committed conn"
proof (cases "foldE (position_step E bs) ps (seen, batch, tot, conn)")
  case (Inl ec)
  with assms(1) have "foldE (position_step E bs) ps (seen, batch, tot, conn) = Inl (e, conn')"
    by simp
  from foldE_position_step_Inl [OF this assms(2)] show ?thesis by simp
next
  case (Inr st)
  obtain seen1 batch1 tot1 conn1 where st: "st = (seen1, batch1, tot1, conn1)"
    by (cases st) auto
  from assms(2) obtain rows where "variants (current conn) = Some rows"
    by (auto simp: in_txn_def)
  from foldE_position_step_Inr [OF Inr [unfolded st] assms(2) this]
  have i: "in_txn conn1" "committed conn1 = committed conn" by auto
  show ?thesis
  proof (cases err)
    case None
    with assms(1) Inr st have "final_flush E (seen1, batch1, tot1, conn1) = Inl (e, conn')"
      by simp
    from final_flush_Inl [OF this i(1)] i(2) show ?thesis by simp
  next
    case (Some e')
    with assms(1) Inr st i show ?thesis by simp
  qed
qed

lemma first_seen_keys:
  "distinct (map vid_key (first_seen K es)) \<and>
   set (map vid_key (first_seen K es)) = vid_key ` set es - K"
proof (induction es arbitrary: K)
  case Nil
  then show ?case by simp
next
  case (Cons e es)
  show ?case
  proof (cases "vid_key e \<in> K")
    case True
    with Cons [of K] show ?thesis by auto
  next
    case False
    with Cons [of "insert (vid_key e) K"] show ?thesis by auto
  qed
qed

lemma length_first_seen: "length (first_seen {} es) = card (vid_key ` set es)"
proof -
  have "length (first_seen {} es) = length (map vid_key (first_seen {} es))" by simp
  also have "\<dots> = card (set (map vid_key (first_seen {} es)))"
    using first_seen_keys [of "{}" es] by (metis distinct_card)
  also have "\<dots> = card (vid_key ` set es)"
    using first_seen_keys [of "{}" es] by simp
  finally show ?thesis .
qed

lemma first_seen_find:
  "e \<in> set (first_seen K es) \<Longrightarrow>
     vid_key e \<notin> K \<and> List.find (\<lambda>e'. vid_key e' = vid_key e) es = Some e"
proof (induction es arbitrary: K)
  case Nil
  then show ?case by simp
next
  case (Cons e0 es)
  show ?case
  proof (cases "vid_key e0 \<in> K")
    case True
    with Cons.prems have "e \<in> set (first_seen K es)" by simp
    from Cons.IH [OF this] True show ?thesis by auto
  next
    case False
    with Cons.prems have "e = e0 \<or> e \<in> set (first_seen (insert (vid_key e0) K) es)" by simp
    then show ?thesis
    proof
      assume "e = e0"
      with False show ?thesis by simp
    next
      assume "e \<in> set (first_seen (insert (vid_key e0) K) es)"
      from Cons.IH [OF this] show ?thesis by auto
    qed
  qed
qed

lemma begin_connection:
  "committed (execute_begin (create_variant_table (connect db))) = table_created db"
  "current (execute_begin (create_variant_table (connect db))) = table_created db"
  "in_txn (execute_begin (create_variant_table (connect db)))"
  "variants (table_created db) = Some (variant_rows db)"
  by (auto simp: execute_begin_def create_variant_table_def connect_def current_def set_current_def
      table_created_def in_txn_def variant_rows_def elements_def Let_def split: option.splits)

lemma create_mapping_tables_committed:
  assumes "txn conn = None" and "variants (committed conn) = Some rows"
  shows "\<exists>conn2. create_mapping_tables conn = Inr conn2 \<and>
           variants (committed conn2) = Some rows"
  using assms
  by (simp add: create_mapping_tables_def current_def set_current_def Let_def)

lemma stored_iff: "stored E e row \<longleftrightarrow> (\<exists>r. built E e r \<and> db_bind E r = Inr row)"
  by (auto simp: stored_def built_def split: sum.splits)

lemma list_all2_stored:
  assumes "list_all2 (built E) es recs" and "list_all2 (\<lambda>r row. db_bind E r = Inr row) recs rows"
  shows "list_all2 (stored E) es rows"
proof -
  have "list_all2 (\<lambda>e row. \<exists>r. built E e r \<and> db_bind E r = Inr row) es rows"
    using assms by (fastforce simp: list_all2_conv_all_nth)
  then show ?thesis by (simp add: stored_iff [abs_def])
qed

lemma run_ingestion_Inr:
  assumes "run_ingestion E bs db (ps, err) = (db', Inr cnt)"
  shows "\<exists>recs newrows conn1.
           try_body E bs (execute_begin (create_variant_table (connect db))) (ps, err) = Inr (cnt, conn1) \<and>
           err = None \<and>
           list_all2 (built E) (first_seen {} (all_entries ps)) recs \<and>
           list_all2 (\<lambda>r row. db_bind E r = Inr row) recs newrows \<and>
           committed conn1 = (table_created db) \<lparr> variants := Some (variant_rows db @ newrows) \<rparr> \<and>
           variants db' = Some (variant_rows db @ newrows) \<and> cnt = length newrows"
proof -
  let ?conn = "execute_begin (create_variant_table (connect db))"
  from assms obtain conn1 where
    body: "try_body E bs ?conn (ps, err) = Inr (cnt, conn1)"
    by (auto simp: run_ingestion_def Let_def split: sum.splits prod.splits)
  have none: "err = None"
  proof (cases err)
    case (Some e)
    with body show ?thesis
      by (cases "foldE (position_step E bs) ps ([], [], 0, ?conn)") (simp_all add: try_body_def)
  qed simp
  with body have "ebind (foldE (position_step E bs) ps ([], [], 0, ?conn)) (final_flush E)
      = Inr (cnt, conn1)"
    by (simp add: try_body_def)
  from rest_of_run_Inr [OF this begin_connection(3)] begin_connection(2,4) [of db]
  obtain recs newrows where
    r: "list_all2 (built E) (first_seen {} (all_entries ps)) recs"
      "list_all2 (\<lambda>r row. db_bind E r = Inr row) recs newrows"
      "committed conn1 = (table_created db) \<lparr> variants := Some (variant_rows db @ newrows) \<rparr>"
      "txn conn1 = None" "cnt = length newrows"
    by auto
  from r(3) have v: "variants (committed conn1) = Some (variant_rows db @ newrows)" by simp
  from create_mapping_tables_committed [OF r(4) v] obtain conn2 where
    c2: "create_mapping_tables conn1 = Inr conn2"
      "variants (committed conn2) = Some (variant_rows db @ newrows)"
    by blast
  from assms body c2 have "db' = committed conn2"
    by (simp add: run_ingestion_def Let_def)
  with c2 r body none show ?thesis by blast
qed

text \<open>
  Claim C4. When a run commits and reports \<open>cnt\<close>, the table of variants holds the former
  rows followed by one new row for each entry of \<open>first_seen\<close>, in file order: the row that
  normalising and binding that entry gives. The number of new rows is the number of
  distinct \<open>vid\<close>s among all variant entries of the stream, the \<open>vid\<close> alone being the
  key (entries of any position and chromosome are compared), and it is the reported total.
  Each entry kept is the first entry of the stream with its \<open>vid\<close>. The claim holds for
  every batch size; \<^verbatim>\<open>main\<close> is the run with the batch size 5000.
\<close>

theorem ingestion_first_seen_per_vid:
  assumes "run_ingestion E batch_size db (ps, err) = (db', Inr cnt)"
  shows "\<exists>new. variants db' = Some (variant_rows db @ new) \<and>
           list_all2 (stored E) (first_seen {} (all_entries ps)) new \<and>
           length new = card (vid_key ` set (all_entries ps)) \<and>
           cnt = length new \<and>
           (\<forall>e\<in>set (first_seen {} (all_entries ps)).
              List.find (\<lambda>e'. vid_key e' = vid_key e) (all_entries ps) = Some e)"
proof -
  from run_ingestion_Inr [OF assms] obtain recs new where
    r: "list_all2 (built E) (first_seen {} (all_entries ps)) recs"
      "list_all2 (\<lambda>r row. db_bind E r = Inr row) recs new"
      "variants db' = Some (variant_rows db @ new)" "cnt = length new"
    by blast
  have s: "list_all2 (stored E) (first_seen {} (all_entries ps)) new"
    using r(1,2) by (rule list_all2_stored)
  then have "length new = length (first_seen {} (all_entries ps))"
    by (simp add: list_all2_lengthD)
  then have l: "length new = card (vid_key ` set (all_entries ps))"
    by (simp add: length_first_seen)
  have "\<forall>e\<in>set (first_seen {} (all_entries ps)).
          List.find (\<lambda>e'. vid_key e' = vid_key e) (all_entries ps) = Some e"
    using first_seen_find by blast
  with r(3,4) s l show ?thesis by blast
qed

lemma rerun_fails:
  assumes "ebind (foldE (position_step E bs) ps (seen, batch, tA, cA)) (final_flush E) = Inr (cntA, cA')"
    and "in_txn cA" and "variants (current cA) = Some rowsA"
    and "in_txn cB" and "variants (current cB) = Some rowsB"
    and "tA < cntA"
    and "pkey ` set (variant_rows (committed cA')) \<subseteq> pkey ` set rowsB"
  shows "ebind (foldE (position_step E bs) ps (seen, batch, tB, cB)) (final_flush E)
           = Inl (ConstraintError, cB)"
  using assms
proof (induction ps arbitrary: seen batch tA cA rowsA tB)
  case Nil
  from Nil.prems(1) have fin: "final_flush E (seen, batch, tA, cA) = Inr (cntA, cA')" by simp
  from final_flush_Inr [OF fin Nil.prems(2,3)] obtain newrows where
    n: "list_all2 (\<lambda>r row. db_bind E r = Inr row) batch newrows"
      "committed cA' = (current cA) \<lparr> variants := Some (rowsA @ newrows) \<rparr>"
      "cntA = tA + length batch"
    by blast
  from n(3) Nil.prems(6) obtain r rs where batch: "batch = r # rs"
    by (cases batch) auto
  with n(1) obtain row rest where row: "newrows = row # rest" "db_bind E r = Inr row"
    by (auto simp: list_all2_Cons1)
  from n(2) row(1) have "row \<in> set (variant_rows (committed cA'))"
    by (simp add: variant_rows_def elements_def)
  with Nil.prems(7) have "pkey row \<in> pkey ` set rowsB" by blast
  from batch_insert_collision [OF row(2) Nil.prems(5) this]
  show ?case by (simp add: final_flush_def batch)
next
  case (Cons p ps)
  from Cons.prems(1) obtain seen1 batch1 t1 c1 where
    step: "position_step E bs (seen, batch, tA, cA) p = Inr (seen1, batch1, t1, c1)" and
    rest: "ebind (foldE (position_step E bs) ps (seen1, batch1, t1, c1)) (final_flush E)
             = Inr (cntA, cA')"
    by (cases "position_step E bs (seen, batch, tA, cA) p") auto
  from step obtain seen2 batch2 where
    loop: "variants_loop E (seen, batch) p = Inr (seen2, batch2)"
    by (auto simp: position_step_def split: sum.splits)
  show ?case
  proof (cases "bs \<le> length batch2")
    case False
    with step loop have s: "seen1 = seen2" "batch1 = batch2" "t1 = tA" "c1 = cA"
      by (auto simp: position_step_def)
    from False loop have stepB: "position_step E bs (seen, batch, tB, cB) p = Inr (seen2, batch2, tB, cB)"
      by (simp add: position_step_def)
    from Cons.IH [OF rest [unfolded s] Cons.prems(2,3,4,5,6,7), of tB] stepB
    show ?thesis by simp
  next
    case True
    with step loop obtain cA1 where
      ins: "batch_insert E cA batch2 = Inr cA1" and
      s: "seen1 = seen2" "batch1 = []" "t1 = tA + length batch2" "c1 = cA1"
      by (auto simp: position_step_def ebind_eq_Inr)
    from batch_insert_Inr [OF ins Cons.prems(2,3)] obtain newrows where
      n: "current cA1 = (current cA) \<lparr> variants := Some (rowsA @ newrows) \<rparr>"
        "list_all2 (\<lambda>r row. db_bind E r = Inr row) batch2 newrows"
        "in_txn cA1"
      by blast
    from n(1) have v1: "variants (current cA1) = Some (rowsA @ newrows)" by simp
    show ?thesis
    proof (cases batch2)
      case Nil
      with ins have "cA1 = cA" by simp
      with rest s Nil have restA:
        "ebind (foldE (position_step E bs) ps (seen2, [], tA, cA)) (final_flush E) = Inr (cntA, cA')"
        by simp
      from True loop Nil have stepB:
        "position_step E bs (seen, batch, tB, cB) p = Inr (seen2, [], tB, cB)"
        by (simp add: position_step_def)
      from Cons.IH [OF restA Cons.prems(2,3,4,5,6,7), of tB] stepB
      show ?thesis by simp
    next
      case (Cons r rs)
      with n(2) obtain row more where row: "newrows = row # more" "db_bind E r = Inr row"
        by (auto simp: list_all2_Cons1)
      from rest_of_run_Inr [OF rest [unfolded s] n(3) v1] obtain later where
        "committed cA' = (current cA1) \<lparr> variants := Some ((rowsA @ newrows) @ later) \<rparr>"
        by blast
      with row(1) have "row \<in> set (variant_rows (committed cA'))"
        by (simp add: variant_rows_def elements_def)
      with Cons.prems(7) have "pkey row \<in> pkey ` set rowsB" by blast
      from batch_insert_collision [OF row(2) Cons.prems(5) this]
      have "batch_insert E cB batch2 = Inl (ConstraintError, cB)"
        by (simp add: Cons)
      with True loop have "position_step E bs (seen, batch, tB, cB) p = Inl (ConstraintError, cB)"
        by (simp add: position_step_def)
      then show ?thesis by simp
    qed
  qed
qed

lemma run_ingestion_Inl:
  assumes "snd (run_ingestion E bs db stream) = Inl e"
  shows "fst (run_ingestion E bs db stream) = table_created db"
proof -
  let ?conn = "execute_begin (create_variant_table (connect db))"
  obtain ps err where stream: "stream = (ps, err)" by (cases stream) auto
  show ?thesis
  proof (cases "try_body E bs ?conn stream")
    case (Inl ec)
    obtain e' conn1 where ec: "ec = (e', conn1)" by (cases ec) auto
    from Inl ec stream have
      "ebind (foldE (position_step E bs) ps ([], [], 0, ?conn))
         (\<lambda>st. case err of Some e \<Rightarrow> Inl (e, snd (snd (snd st))) | None \<Rightarrow> final_flush E st)
         = Inl (e', conn1)"
      by (simp add: try_body_def)
    from rest_of_run_Inl [OF this begin_connection(3)]
    have "committed conn1 = table_created db" by (simp add: begin_connection)
    with Inl ec show ?thesis
      by (simp add: run_ingestion_def Let_def execute_rollback_def)
  next
    case (Inr tc)
    obtain cnt conn1 where tc: "tc = (cnt, conn1)" by (cases tc) auto
    have "\<exists>db'. run_ingestion E bs db (ps, err) = (db', Inr cnt)"
    proof -
      from Inr tc stream have body: "try_body E bs ?conn (ps, err) = Inr (cnt, conn1)" by simp
      have none: "err = None"
      proof (cases err)
        case (Some e)
        with body show ?thesis
          by (cases "foldE (position_step E bs) ps ([], [], 0, ?conn)") (simp_all add: try_body_def)
      qed simp
      with body have "ebind (foldE (position_step E bs) ps ([], [], 0, ?conn)) (final_flush E)
          = Inr (cnt, conn1)"
        by (simp add: try_body_def)
      from rest_of_run_Inr [OF this begin_connection(3)] begin_connection(2,4) [of db]
      obtain newrows where
        r: "committed conn1 = (table_created db) \<lparr> variants := Some (variant_rows db @ newrows) \<rparr>"
          "txn conn1 = None"
        by auto
      from r(1) have v: "variants (committed conn1) = Some (variant_rows db @ newrows)" by simp
      from create_mapping_tables_committed [OF r(2) v] obtain conn2 where
        "create_mapping_tables conn1 = Inr conn2" by blast
      with body show ?thesis by (simp add: run_ingestion_def Let_def)
    qed
    with assms stream show ?thesis by auto
  qed
qed

lemma table_created_rows:
  "variant_rows (table_created db) = variant_rows db"
  "variant_genes (table_created db) = variant_genes db"
  "variant_consequences (table_created db) = variant_consequences db"
  "database.clinvar_classifications (table_created db) = database.clinvar_classifications db"
  "variants db \<noteq> None \<Longrightarrow> table_created db = db"
  by (auto simp: table_created_def variant_rows_def elements_def split: option.splits)

text \<open>
  Claim C3. When a run ends with an exception, whatever raised it and however many batches
  were flushed before, the database file holds the rows of the table of variants and the
  three derived tables it held before the run; it is the same database when the table of
  variants existed (otherwise the run has created it, empty). And when a run has committed
  at least one record, a run of the same stream on a database that holds the keys of the
  first run's table, such as the database the first run left, ends with a constraint error
  and leaves that database as it was.
\<close>

theorem ingestion_all_or_nothing:
  "(snd (run_ingestion E batch_size db stream) = Inl e \<longrightarrow>
      variant_rows (fst (run_ingestion E batch_size db stream)) = variant_rows db \<and>
      variant_genes (fst (run_ingestion E batch_size db stream)) = variant_genes db \<and>
      variant_consequences (fst (run_ingestion E batch_size db stream)) = variant_consequences db \<and>
      database.clinvar_classifications (fst (run_ingestion E batch_size db stream))
        = database.clinvar_classifications db \<and>
      (variants db \<noteq> None \<longrightarrow> fst (run_ingestion E batch_size db stream) = db)) \<and>
   (run_ingestion E batch_size db stream = (db1, Inr cnt) \<and> 0 < cnt \<and>
    variants db2 = Some rows2 \<and> pkey ` set (variant_rows db1) \<subseteq> pkey ` set rows2 \<longrightarrow>
      run_ingestion E batch_size db2 stream = (db2, Inl ConstraintError))"
proof (intro conjI impI)
  assume f: "snd (run_ingestion E batch_size db stream) = Inl e"
  note t = run_ingestion_Inl [OF f]
  show "variant_rows (fst (run_ingestion E batch_size db stream)) = variant_rows db"
    "variant_genes (fst (run_ingestion E batch_size db stream)) = variant_genes db"
    "variant_consequences (fst (run_ingestion E batch_size db stream)) = variant_consequences db"
    "database.clinvar_classifications (fst (run_ingestion E batch_size db stream))
        = database.clinvar_classifications db"
    by (simp_all add: t table_created_rows)
  assume "variants db \<noteq> None"
  then show "fst (run_ingestion E batch_size db stream) = db"
    by (simp add: t table_created_rows)
next
  assume a: "run_ingestion E batch_size db stream = (db1, Inr cnt) \<and> 0 < cnt \<and>
    variants db2 = Some rows2 \<and> pkey ` set (variant_rows db1) \<subseteq> pkey ` set rows2"
  obtain ps err where stream: "stream = (ps, err)" by (cases stream) auto
  let ?cA = "execute_begin (create_variant_table (connect db))"
  let ?cB = "execute_begin (create_variant_table (connect db2))"
  from a stream have run: "run_ingestion E batch_size db (ps, err) = (db1, Inr cnt)" by simp
  from run_ingestion_Inr [OF run] obtain newrows conn1 where
    r: "try_body E batch_size ?cA (ps, err) = Inr (cnt, conn1)" "err = None"
      "committed conn1 = (table_created db) \<lparr> variants := Some (variant_rows db @ newrows) \<rparr>"
      "variants db1 = Some (variant_rows db @ newrows)"
    by blast
  from r(1,2) have bodyA:
    "ebind (foldE (position_step E batch_size) ps ([], [], 0, ?cA)) (final_flush E) = Inr (cnt, conn1)"
    by (simp add: try_body_def)
  have rowsA: "variants (current ?cA) = Some (variant_rows db)"
    by (simp add: begin_connection)
  from a have tb: "table_created db2 = db2" by (simp add: table_created_rows)
  have rowsB: "variants (current ?cB) = Some rows2"
    using a by (simp add: begin_connection tb)
  have keys: "pkey ` set (variant_rows (committed conn1)) \<subseteq> pkey ` set rows2"
    using a r(3,4) by (simp add: variant_rows_def elements_def)
  from a have pos: "0 < cnt" by simp
  from rerun_fails [OF bodyA begin_connection(3) rowsA begin_connection(3) rowsB pos keys, of 0]
  have "try_body E batch_size ?cB (ps, err) = Inl (ConstraintError, ?cB)"
    using r(2) by (simp add: try_body_def)
  then show "run_ingestion E batch_size db2 stream = (db2, Inl ConstraintError)"
    by (simp add: run_ingestion_def Let_def stream execute_rollback_def begin_connection tb)
qed

lemma example_run_total: "snd (run_ingestion plain 2 empty_database example_stream) = Inr 3"
  by code_simp

lemma colliding_run_fails: "snd (run_ingestion plain 1 holding_b colliding_stream) = Inl ConstraintError"
  by code_simp

text \<open>
  The theorem at the example stream with batch size 2, so that one batch is flushed in the
  loop and one at the end: three rows from four entries.
\<close>

theorem ingestion_first_seen_per_vid_witness:
  "\<exists>new. variants (fst (run_ingestion plain 2 empty_database example_stream)) = Some new \<and>
     length new = 3 \<and>
     list_all2 (stored plain) (first_seen {} (all_entries (fst example_stream))) new"
proof -
  have run: "run_ingestion plain 2 empty_database (fst example_stream, snd example_stream) =
      (fst (run_ingestion plain 2 empty_database example_stream), Inr 3)"
    using example_run_total by (simp add: prod_eq_iff)
  have "variant_rows empty_database = []"
    by (simp add: variant_rows_def elements_def empty_database_def)
  with ingestion_first_seen_per_vid [OF run] show ?thesis by auto
qed

text \<open>
  The theorem at two runs. With batch size 1 on a database that holds the key of the second
  variant, the first batch is flushed and the second insert fails: the database is as
  before. The example stream run a second time on its own result fails with a constraint
  error and changes nothing.
\<close>

theorem ingestion_all_or_nothing_witness:
  "run_ingestion plain 1 holding_b colliding_stream = (holding_b, Inl ConstraintError) \<and>
   run_ingestion plain 2 (fst (run_ingestion plain 2 empty_database example_stream)) example_stream =
     (fst (run_ingestion plain 2 empty_database example_stream), Inl ConstraintError)"
proof
  have v: "variants holding_b \<noteq> None" by (simp add: holding_b_def rebuilt_def)
  from ingestion_all_or_nothing [of plain 1 holding_b colliding_stream ConstraintError]
  have "snd (run_ingestion plain 1 holding_b colliding_stream) = Inl ConstraintError \<longrightarrow>
      (variants holding_b \<noteq> None \<longrightarrow> fst (run_ingestion plain 1 holding_b colliding_stream) = holding_b)"
    by blast
  with colliding_run_fails v
  have "fst (run_ingestion plain 1 holding_b colliding_stream) = holding_b" by blast
  with colliding_run_fails
  show "run_ingestion plain 1 holding_b colliding_stream = (holding_b, Inl ConstraintError)"
    by (simp only: prod_eq_iff fst_conv snd_conv simp_thms)
next
  let ?db1 = "fst (run_ingestion plain 2 empty_database example_stream)"
  have run: "run_ingestion plain 2 empty_database example_stream = (?db1, Inr 3)"
    using example_run_total by (simp only: prod_eq_iff fst_conv snd_conv simp_thms)
  then have "run_ingestion plain 2 empty_database (fst example_stream, snd example_stream) = (?db1, Inr 3)"
    by (simp only: prod.collapse)
  from run_ingestion_Inr [OF this]
  obtain rows2 where rows2: "variants ?db1 = Some rows2" by blast
  then have "variant_rows ?db1 = rows2"
    by (simp only: variant_rows_def elements_def option.case)
  then have sub: "pkey ` set (variant_rows ?db1) \<subseteq> pkey ` set rows2"
    by (simp only: subset_refl)
  have pos: "(0::nat) < 3" by simp
  from ingestion_all_or_nothing [of plain 2 empty_database example_stream ConstraintError ?db1 3 ?db1 rows2]
  have "run_ingestion plain 2 empty_database example_stream = (?db1, Inr 3) \<and> 0 < (3::nat) \<and>
          variants ?db1 = Some rows2 \<and> pkey ` set (variant_rows ?db1) \<subseteq> pkey ` set rows2 \<longrightarrow>
        run_ingestion plain 2 ?db1 example_stream = (?db1, Inl ConstraintError)"
    by (rule conjunct2)
  with run pos rows2 sub
  show "run_ingestion plain 2 ?db1 example_stream = (?db1, Inl ConstraintError)"
    by blast
qed

end
